theory Spec2Isabelle
  imports Main "HOL-Library.Multiset" "HOL-Library.Word"
begin

unbundle bit_operations_syntax

section \<open>Strings\<close>

text \<open>
  A Go string is a sequence of bytes; it is modelled as a \<open>string\<close> (a list of
  \<open>char\<close>, one per byte).  The functions of package \<open>strings\<close> the code calls are
  written out on bytes.  \<open>ToUpper\<close> and \<open>TrimSpace\<close> are Go's on ASCII input; on
  bytes outside ASCII Go decodes UTF-8, which the model does not (it leaves
  such bytes alone).  No proof below depends on what the two functions do to a
  string.
\<close>

definition upper_byte :: "char \<Rightarrow> char" where
  "upper_byte c =
     (case map_of (zip ''abcdefghijklmnopqrstuvwxyz'' ''ABCDEFGHIJKLMNOPQRSTUVWXYZ'') c of
        Some u \<Rightarrow> u
      | None \<Rightarrow> c)"

definition ToUpper :: "string \<Rightarrow> string" where
  "ToUpper s = map upper_byte s"

definition isSpace :: "char \<Rightarrow> bool" where
  "isSpace c = (c \<in> set [CHR '' '', CHR 0x09, CHR 0x0A, CHR 0x0B, CHR 0x0C, CHR 0x0D])"

definition TrimSpace :: "string \<Rightarrow> string" where
  "TrimSpace s = rev (dropWhile isSpace (rev (dropWhile isSpace s)))"

text \<open>\<open>strings.Split(s, sep)\<close> for a separator of one byte: \<open>split_from cur s\<close> is the
  list of pieces of \<open>s\<close>, the first one prefixed by the bytes read so far (kept
  reversed in \<open>cur\<close>).  The empty string splits into one empty piece.\<close>

fun split_from :: "char \<Rightarrow> string \<Rightarrow> string \<Rightarrow> string list" where
  "split_from sep cur [] = [rev cur]"
| "split_from sep cur (c # cs) =
     (if c = sep then rev cur # split_from sep [] cs else split_from sep (c # cur) cs)"

definition Split :: "string \<Rightarrow> char \<Rightarrow> string list" where
  "Split s sep = split_from sep [] s"

fun HasPrefix :: "string \<Rightarrow> string \<Rightarrow> bool" where
  "HasPrefix s [] = True"
| "HasPrefix [] (p # ps) = False"
| "HasPrefix (c # cs) (p # ps) = (c = p \<and> HasPrefix cs ps)"

definition HasSuffix :: "string \<Rightarrow> string \<Rightarrow> bool" where
  "HasSuffix s suffix = HasPrefix (rev s) (rev suffix)"

text \<open>\<open>strings.Index(s, sub)\<close>: the offset of the first occurrence of \<open>sub\<close> in
  \<open>s\<close>, \<open>None\<close> for Go's \<open>-1\<close>.\<close>

fun Index :: "string \<Rightarrow> string \<Rightarrow> nat option" where
  "Index [] sub = (if sub = [] then Some 0 else None)"
| "Index (c # cs) sub =
     (if HasPrefix (c # cs) sub then Some 0
      else (case Index cs sub of None \<Rightarrow> None | Some i \<Rightarrow> Some (Suc i)))"

definition Contains :: "string \<Rightarrow> string \<Rightarrow> bool" where
  "Contains s sub = (Index s sub \<noteq> None)"


section \<open>Errors\<close>

text \<open>
  Go's \<open>error\<close> values, as far as the code tells them apart: the rate-limit error of
  \<open>NewYFRateLimitError\<close>, a message built by \<open>fmt.Errorf\<close> (\<open>Errorf_d\<close> when it ends on a number, \<open>%d\<close>), a
  message wrapping another error (\<open>%w\<close>), and an error handed over by the standard library (the transport,
  \<open>io.ReadAll\<close>, \<open>json.Marshal\<close>, \<open>http.NewRequestWithContext\<close>, \<open>os.WriteFile\<close>).
\<close>

datatype error =
    YFRateLimitError
  | Errorf string
  | Errorf_d string int
  | Wrapf string error
  | External string


section \<open>download.go: the fetch orchestrator\<close>

text \<open>Of \<open>DownloadOptions\<close> the record keeps the two fields that decide what \<open>Download\<close>
  does, \<open>Tickers\<close> and \<open>Threads\<close>, and two of those it only hands on to \<open>History\<close>.\<close>

record DownloadOptions =
  Tickers :: "string list"
  Period :: string
  Interval :: string
  Threads :: int

definition DefaultDownloadOptions :: DownloadOptions where
  "DefaultDownloadOptions =
     \<lparr>Tickers = [], Period = ''1mo'', Interval = ''1d'', Threads = 4\<rparr>"

text \<open>\<open>DownloadResult\<close>: the two Go maps are partial functions, the two slices are
  lists.  \<open>'h\<close> stands for \<open>*HistoryResult\<close>.\<close>

record 'h DownloadResult =
  Data :: "string \<rightharpoonup> 'h"
  Errors :: "string \<rightharpoonup> error"
  Failed :: "string list"
  Succeeded :: "string list"

definition empty_result :: "'h DownloadResult" where
  "empty_result = \<lparr>Data = Map.empty, Errors = Map.empty, Failed = [], Succeeded = []\<rparr>"

text \<open>Lines 71--84, the normalisation loop.  The state of the loop is the slice
  \<open>tickers\<close> and the map \<open>seen\<close>; \<open>add_part\<close> is the body of the inner loop.\<close>

definition add_part ::
  "string \<Rightarrow> string list \<times> (string \<Rightarrow> bool) \<Rightarrow> string list \<times> (string \<Rightarrow> bool)" where
  "add_part p0 st =
     (let p = ToUpper (TrimSpace p0) in
      if p \<noteq> [] \<and> \<not> snd st p then (fst st @ [p], (snd st)(p := True)) else st)"

definition add_ticker ::
  "string \<Rightarrow> string list \<times> (string \<Rightarrow> bool) \<Rightarrow> string list \<times> (string \<Rightarrow> bool)" where
  "add_ticker t st = fold add_part (Split t CHR '','') st"

definition normalize_tickers :: "string list \<Rightarrow> string list" where
  "normalize_tickers ts = fst (fold add_ticker ts ([], \<lambda>_. False))"

text \<open>Lines 99--106, the number of workers.\<close>

definition worker_count :: "int \<Rightarrow> int \<Rightarrow> int" where
  "worker_count threads n =
     (let workers = threads;
          workers = (if workers \<le> 0 then 1 else workers);
          workers = (if workers > n then n else workers)
      in workers)"

text \<open>
  The pool.  A goroutine started at line 121 is either at the head of its loop,
  receiving from \<open>tickerChan\<close>; or inside \<open>t.History\<close> for the symbol it received; or
  it has left the loop (the channel was closed and empty) and run \<open>wg.Done\<close>.
  \<open>tickerChan\<close> is the buffered channel, filled and closed before any worker
  starts.  \<open>fetched\<close> is not a variable of the program: it records the symbols
  handed to \<open>History\<close>, in the order of the calls.
\<close>

datatype worker = Receiving | Fetching string | Exited

record 'h pool =
  tickerChan :: "string list"
  goroutines :: "worker list"
  result :: "'h DownloadResult"
  fetched :: "string list"

definition init_pool :: "DownloadOptions \<Rightarrow> 'h pool" where
  "init_pool options =
     (let tickers = normalize_tickers (Tickers options);
          workers = worker_count (Threads options) (int (length tickers))
      in \<lparr>tickerChan = tickers,
          goroutines = replicate (nat workers) Receiving,
          result = empty_result,
          fetched = []\<rparr>)"

text \<open>Lines 144--152, under the mutex.\<close>

definition record_outcome :: "string \<Rightarrow> error + 'h \<Rightarrow> 'h DownloadResult \<Rightarrow> 'h DownloadResult" where
  "record_outcome ticker out r =
     (case out of
        Inl err \<Rightarrow> r\<lparr>Errors := (Errors r)(ticker \<mapsto> err), Failed := Failed r @ [ticker]\<rparr>
      | Inr history \<Rightarrow> r\<lparr>Data := (Data r)(ticker \<mapsto> history), Succeeded := Succeeded r @ [ticker]\<rparr>)"

text \<open>
  One step of goroutine \<open>i\<close>.  What \<open>History\<close> returns is the environment's
  choice: \<open>hist k t\<close> is the outcome of the fetch of \<open>t\<close> that is the \<open>k\<close>-th to
  complete.  \<open>History\<close> is taken to return (a value or an error).  A goroutine that
  has exited, or an index that names no goroutine, makes no step.
\<close>

definition goroutine_step :: "(nat \<Rightarrow> string \<Rightarrow> error + 'h) \<Rightarrow> nat \<Rightarrow> 'h pool \<Rightarrow> 'h pool" where
  "goroutine_step hist i p =
     (if i < length (goroutines p) then
        (case goroutines p ! i of
           Receiving \<Rightarrow>
             (case tickerChan p of
                [] \<Rightarrow> p\<lparr>goroutines := (goroutines p)[i := Exited]\<rparr>
              | ticker # rest \<Rightarrow>
                  p\<lparr>tickerChan := rest,
                    goroutines := (goroutines p)[i := Fetching ticker],
                    fetched := fetched p @ [ticker]\<rparr>)
         | Fetching ticker \<Rightarrow>
             p\<lparr>goroutines := (goroutines p)[i := Receiving],
               result := record_outcome ticker
                  (hist (length (Succeeded (result p)) + length (Failed (result p))) ticker)
                  (result p)\<rparr>
         | Exited \<Rightarrow> p)
      else p)"

text \<open>The scheduler is the environment's too: a schedule lists the goroutine
  that moves next.\<close>

fun run_pool :: "(nat \<Rightarrow> string \<Rightarrow> error + 'h) \<Rightarrow> nat list \<Rightarrow> 'h pool \<Rightarrow> 'h pool" where
  "run_pool hist [] p = p"
| "run_pool hist (i # sched) p = run_pool hist sched (goroutine_step hist i p)"

text \<open>
  \<open>Download\<close> under a schedule.  \<open>wg.Wait\<close> returns once every goroutine has exited;
  under a schedule that stops before that, \<open>Download\<close> has not returned
  (\<open>Blocked\<close>).  \<open>Returned r err calls\<close> is the pair \<open>(r, err)\<close> the Go function
  returns, with the symbols handed to \<open>History\<close>.  A \<open>nil\<close> options pointer is
  \<open>None\<close>.
\<close>

datatype 'h download_outcome =
    Blocked
  | Returned "'h DownloadResult" "error option" "string list"

definition wait_done :: "'h pool \<Rightarrow> bool" where
  "wait_done p = list_all (\<lambda>w. w = Exited) (goroutines p)"

definition Download ::
  "(nat \<Rightarrow> string \<Rightarrow> error + 'h) \<Rightarrow> nat list \<Rightarrow> DownloadOptions option \<Rightarrow> 'h download_outcome" where
  "Download hist sched options0 =
     (let options = (case options0 of None \<Rightarrow> DefaultDownloadOptions | Some opts \<Rightarrow> opts) in
      if length (Tickers options) = 0 then Returned empty_result None []
      else
        (let p = run_pool hist sched (init_pool options) in
         if wait_done p then Returned (result p) None (fetched p) else Blocked))"

text \<open>A schedule under which \<open>Download\<close> returns: the first goroutine receives and
  fetches every symbol, then each goroutine finds the channel closed.\<close>

definition drain_schedule :: "DownloadOptions \<Rightarrow> nat list" where
  "drain_schedule options =
     (let tickers = normalize_tickers (Tickers options) in
      replicate (2 * length tickers) 0 @
      [0 ..< nat (worker_count (Threads options) (int (length tickers)))])"

text \<open>The normal form of a list of tickers as the specification words it: every
  comma-separated piece, trimmed and upper-cased, as a set.\<close>

definition spec_normal_form :: "string list \<Rightarrow> string set" where
  "spec_normal_form S = (\<lambda>p. ToUpper (TrimSpace p)) ` (\<Union>t \<in> set S. set (Split t CHR '',''))"

section \<open>The session manager\<close>

text \<open>
  The methods of \<open>YfData\<close> are modelled as run by one goroutine: each takes the
  state of the session and of the world around it and returns the new one.  The
  mutex \<open>yd.mu\<close> makes the bodies of \<open>getCookieAndCrumb\<close>, \<open>switchCookieStrategy\<close>,
  \<open>acceptConsent\<close> and \<open>ResetCrumb\<close> atomic; what other goroutines do between two
  calls is not modelled.
\<close>

subsection \<open>Data\<close>

record CookieCache =
  Cookie :: string
  Crumb :: string
  Expiry :: int
  Strategy :: string

text \<open>
  The file \<open>cookie_cache.json\<close> of the cache directory holds either the JSON
  encoding of a \<open>CookieCache\<close> or bytes \<open>json.Unmarshal\<close> rejects.  \<open>Json cache\<close>
  stands for a file from which \<open>json.Unmarshal\<close> reads the record \<open>cache\<close>; a
  \<open>time.Time\<close> is its number of nanoseconds.
\<close>

datatype file_content = Corrupt | Json CookieCache

record request =
  Method :: string
  URL :: string
  ReqBody :: "string option"
  Header :: "(string \<times> string) list"

text \<open>
  What the code reads of an \<open>*http.Response\<close>: the status, what
  \<open>io.ReadAll(resp.Body)\<close> returns, \<open>resp.Cookies()\<close> as pairs of name and value,
  the cookies the client's jar holds for \<open>https://yahoo.com\<close> once the response is
  in (the client fills the jar), and \<open>resp.Request.URL.String()\<close>, the URL the
  response finally came from.
\<close>

record http_response =
  StatusCode :: int
  Body :: "error + string"
  Cookies :: "(string \<times> string) list"
  JarCookies :: "(string \<times> string) list"
  RequestURL :: string

text \<open>
  The world outside the repository.  Every request goes through \<open>yd.client.Do\<close>;
  the transport's answers are given as two scripts, \<open>api_script k\<close> for the
  \<open>k\<close>-th request that \<open>doRequest\<close> sends and \<open>cred_script k\<close> for the \<open>k\<close>-th
  request that the acquisition of cookie and crumb sends.  A script is indexed
  by the number of the request: the run of the code against a transport is its
  run against the script of the answers that transport gave, so what holds for
  all scripts holds for every transport.  The other fields are functions of
  Go's standard library that the model does not write out, and the results of
  calls that can fail: \<open>Values_Encode\<close> is \<open>url.Values.Encode\<close> of the values set
  from the given pairs, \<open>QueryEscape\<close> is \<open>url.QueryEscape\<close>, \<open>url_Hostname\<close> is
  \<open>url.Parse\<close> followed by
  \<open>Hostname\<close> (\<open>None\<close> when parsing fails), \<open>NewRequest_error method url\<close> is the
  error of \<open>http.NewRequestWithContext\<close>, \<open>WriteFile_error\<close> that of \<open>os.WriteFile\<close>,
  and \<open>huge_Duration\<close> is the conversion to \<open>int64\<close> of a float too large for it
  (\<open>2 ^ 63\<close> and above), which Go leaves to the implementation.
\<close>

record env =
  api_script :: "nat \<Rightarrow> error + http_response"
  cred_script :: "nat \<Rightarrow> error + http_response"
  Values_Encode :: "(string \<times> string) list \<Rightarrow> string"
  QueryEscape :: "string \<Rightarrow> string"
  url_Hostname :: "string \<Rightarrow> string option"
  NewRequest_error :: "string \<Rightarrow> string \<Rightarrow> error option"
  WriteFile_error :: "error option"
  huge_Duration :: "64 word"

text \<open>\<open>Config\<close>, of which \<open>makeRequest\<close> reads \<open>Retries\<close> through \<open>GetRetries\<close>.\<close>

record Config =
  Proxy :: string
  Retries :: int
  Timeout :: int

text \<open>What a run leaves behind, in order: the requests sent, the calls of
  \<open>time.Sleep\<close> with their argument, and the calls of \<open>switchCookieStrategy\<close>.\<close>

datatype event =
    Sent request
  | CredSent request
  | Sleep "64 word"
  | SwitchStrategy

text \<open>
  The fields of \<open>YfData\<close> the code reads or writes, and around them the state of
  the world: the cache file, the wall clock (\<open>time.Now()\<close>, in nanoseconds), how
  many requests each script has answered, and the trace.
\<close>

record YfData =
  crumb :: string
  cookie :: string
  cookieStrategy :: string
  userAgent :: string
  cacheDir :: string
  sessionID :: string

record world = YfData +
  cache_file :: "file_content option"
  now :: int
  api_calls :: nat
  cred_calls :: nat
  trace :: "event list"

definition Second :: "64 word" where
  "Second = 1000000000"

definition Hour :: int where
  "Hour = 3600 * 1000000000"


subsection \<open>Strings through JSON\<close>

text \<open>
  \<open>json.Marshal\<close> writes a string byte by byte where the bytes are valid UTF-8
  and writes \<open>U+FFFD\<close> for every byte that is not part of a valid encoding;
  \<open>json.Unmarshal\<close> reads back what was written.  \<open>rune_width s\<close> is the width of
  the valid encoding at the head of \<open>s\<close>, as \<open>utf8.DecodeRuneInString\<close> finds it,
  and 0 where it returns \<open>RuneError\<close> with width 1; \<open>continues n lo hi rest\<close> says
  that \<open>rest\<close> starts with \<open>n\<close> continuation bytes, the first of them between
  \<open>lo\<close> and \<open>hi\<close>.  \<open>coerce_utf8 k s\<close> is the string
  read back from \<open>s\<close> when the first \<open>k\<close> bytes are the rest of an encoding
  already accepted; \<open>json_string s\<close> is \<open>s\<close> after \<open>json.Marshal\<close> and
  \<open>json.Unmarshal\<close>, and \<open>ValidString\<close> is \<open>utf8.ValidString\<close>.
\<close>

definition in_range :: "char \<Rightarrow> nat \<Rightarrow> nat \<Rightarrow> bool" where
  "in_range b lo hi = (lo \<le> of_char b \<and> of_char b \<le> hi)"

fun continues :: "nat \<Rightarrow> nat \<Rightarrow> nat \<Rightarrow> string \<Rightarrow> bool" where
  "continues 0 lo hi rest = True"
| "continues (Suc n) lo hi [] = False"
| "continues (Suc n) lo hi (b # bs) = (in_range b lo hi \<and> continues n 0x80 0xBF bs)"

definition rune_width :: "string \<Rightarrow> nat" where
  "rune_width s =
     (case s of
        [] \<Rightarrow> 0
      | b0 # rest \<Rightarrow>
          if in_range b0 0x00 0x7F then 1
          else if in_range b0 0xC2 0xDF then
            (if continues (Suc 0) 0x80 0xBF rest then 2 else 0)
          else if in_range b0 0xE0 0xEF then
            (if continues (Suc (Suc 0))
                  (if in_range b0 0xE0 0xE0 then 0xA0 else 0x80)
                  (if in_range b0 0xED 0xED then 0x9F else 0xBF) rest
             then 3 else 0)
          else if in_range b0 0xF0 0xF4 then
            (if continues (Suc (Suc (Suc 0)))
                  (if in_range b0 0xF0 0xF0 then 0x90 else 0x80)
                  (if in_range b0 0xF4 0xF4 then 0x8F else 0xBF) rest
             then 4 else 0)
          else 0)"

definition replacement :: string where
  "replacement = [CHR 0xEF, CHR 0xBF, CHR 0xBD]"

fun coerce_utf8 :: "nat \<Rightarrow> string \<Rightarrow> string" where
  "coerce_utf8 k [] = []"
| "coerce_utf8 (Suc k) (b # bs) = b # coerce_utf8 k bs"
| "coerce_utf8 0 (b # bs) =
     (if rune_width (b # bs) = 0 then replacement @ coerce_utf8 0 bs
      else b # coerce_utf8 (rune_width (b # bs) - 1) bs)"

definition json_string :: "string \<Rightarrow> string" where
  "json_string s = coerce_utf8 0 s"

fun utf8_from :: "nat \<Rightarrow> string \<Rightarrow> bool" where
  "utf8_from k [] = True"
| "utf8_from (Suc k) (b # bs) = utf8_from k bs"
| "utf8_from 0 (b # bs) = (rune_width (b # bs) \<noteq> 0 \<and> utf8_from (rune_width (b # bs) - 1) bs)"

definition ValidString :: "string \<Rightarrow> bool" where
  "ValidString s = utf8_from 0 s"


subsection \<open>The credential store\<close>

definition isValidCrumb :: "string \<Rightarrow> bool" where
  "isValidCrumb c =
     (if c = [] then False
      else if Contains c ''<html>'' \<or> Contains c ''<!DOCTYPE''
              \<or> Contains c ''Too Many Requests'' \<or> Contains c ''Yahoo''
      then False
      else True)"

definition loadCookieCache :: "world \<Rightarrow> bool \<times> world" where
  "loadCookieCache w =
     (if cacheDir w = [] then (False, w)
      else
        (case cache_file w of
           None \<Rightarrow> (False, w)
         | Some Corrupt \<Rightarrow> (False, w)
         | Some (Json cache) \<Rightarrow>
             if now w > Expiry cache then (False, w)
             else if \<not> isValidCrumb (Crumb cache) then (False, w)
             else (True, w\<lparr>cookie := Cookie cache, crumb := Crumb cache,
                            cookieStrategy := Strategy cache\<rparr>)))"

text \<open>\<open>json.Marshal\<close> of a \<open>CookieCache\<close> is taken to succeed, and a write that fails
  to leave the file as it was.  The file written holds the three strings as
  JSON carries them.\<close>

definition saveCookieCache :: "env \<Rightarrow> world \<Rightarrow> error option \<times> world" where
  "saveCookieCache E w =
     (if cacheDir w = [] then (None, w)
      else
        (let cache = \<lparr>Cookie = json_string (cookie w), Crumb = json_string (crumb w),
                      Expiry = now w + 24 * Hour,
                      Strategy = json_string (cookieStrategy w)\<rparr>
         in (case WriteFile_error E of
               Some err \<Rightarrow> (Some err, w)
             | None \<Rightarrow> (None, w\<lparr>cache_file := Some (Json cache)\<rparr>))))"


subsection \<open>Requests\<close>

definition Header_Set :: "string \<Rightarrow> string \<Rightarrow> request \<Rightarrow> request" where
  "Header_Set k v req = req\<lparr>Header := filter (\<lambda>h. fst h \<noteq> k) (Header req) @ [(k, v)]\<rparr>"

definition setBrowserHeadersWithUA :: "request \<Rightarrow> string \<Rightarrow> request" where
  "setBrowserHeadersWithUA req0 ua =
     (let req = fold (\<lambda>h. Header_Set (fst h) (snd h))
                  [(''User-Agent'', ua),
                   (''Accept'', ''text/html,application/xhtml+xml,application/xml;q=0.9,image/avif,image/webp,image/apng,*/*;q=0.8''),
                   (''Accept-Language'', ''en-US,en;q=0.9''),
                   (''Accept-Encoding'', ''gzip, deflate, br''),
                   (''Connection'', ''keep-alive''),
                   (''Sec-Fetch-Dest'', ''document''),
                   (''Sec-Fetch-Mode'', ''navigate''),
                   (''Sec-Fetch-Site'', ''none''),
                   (''Sec-Fetch-User'', ''?1''),
                   (''Upgrade-Insecure-Requests'', ''1''),
                   (''Cache-Control'', ''max-age=0'')] req0
      in if ReqBody req \<noteq> None then Header_Set ''Content-Type'' ''application/json'' req else req)"

definition new_request :: "string \<Rightarrow> string \<Rightarrow> string option \<Rightarrow> request" where
  "new_request method url body = \<lparr>Method = method, URL = url, ReqBody = body, Header = []\<rparr>"

definition client_Do_api :: "env \<Rightarrow> request \<Rightarrow> world \<Rightarrow> (error + http_response) \<times> world" where
  "client_Do_api E req w =
     (api_script E (api_calls w),
      w\<lparr>api_calls := Suc (api_calls w), trace := trace w @ [Sent req]\<rparr>)"

definition client_Do_cred :: "env \<Rightarrow> request \<Rightarrow> world \<Rightarrow> (error + http_response) \<times> world" where
  "client_Do_cred E req w =
     (cred_script E (cred_calls w),
      w\<lparr>cred_calls := Suc (cred_calls w), trace := trace w @ [CredSent req]\<rparr>)"


subsection \<open>The acquisition strategies\<close>

definition find_A3 :: "(string \<times> string) list \<Rightarrow> string option" where
  "find_A3 cookies = map_option snd (find (\<lambda>c. fst c = ''A3'') cookies)"

definition getCookieBasicInternal :: "env \<Rightarrow> world \<Rightarrow> error option \<times> world" where
  "getCookieBasicInternal E w =
     (case NewRequest_error E ''GET'' ''https://fc.yahoo.com'' of
        Some err \<Rightarrow> (Some err, w)
      | None \<Rightarrow>
          (let req = setBrowserHeadersWithUA (new_request ''GET'' ''https://fc.yahoo.com'' None)
                       (userAgent w);
               (res, w1) = client_Do_cred E req w
           in (case res of
                 Inl err \<Rightarrow> (Some err, w1)
               | Inr resp \<Rightarrow>
                   (case find_A3 (Cookies resp) of
                      Some v \<Rightarrow> (None, w1\<lparr>cookie := v\<rparr>)
                    | None \<Rightarrow>
                        (case find_A3 (JarCookies resp) of
                           Some v \<Rightarrow> (None, w1\<lparr>cookie := v\<rparr>)
                         | None \<Rightarrow> (None, w1))))))"

text \<open>\<open>getCrumbBasicInternal\<close> and \<open>getCrumbCSRFInternal\<close> differ in the endpoint and
  in the message of the last error only.\<close>

definition get_crumb :: "string \<Rightarrow> string \<Rightarrow> env \<Rightarrow> world \<Rightarrow> (error + string) \<times> world" where
  "get_crumb url msg E w =
     (case NewRequest_error E ''GET'' url of
        Some err \<Rightarrow> (Inl err, w)
      | None \<Rightarrow>
          (let req = setBrowserHeadersWithUA (new_request ''GET'' url None) (userAgent w);
               (res, w1) = client_Do_cred E req w
           in (case res of
                 Inl err \<Rightarrow> (Inl err, w1)
               | Inr resp \<Rightarrow>
                   if StatusCode resp = 429 then (Inl YFRateLimitError, w1)
                   else
                     (case Body resp of
                        Inl err \<Rightarrow> (Inl err, w1)
                      | Inr c \<Rightarrow>
                          if c = [] \<or> Contains c ''<html>'' \<or> Contains c ''Too Many Requests''
                          then (Inl (Errorf (msg @ c)), w1)
                          else (Inr c, w1)))))"

definition getCrumbBasicInternal :: "env \<Rightarrow> world \<Rightarrow> (error + string) \<times> world" where
  "getCrumbBasicInternal =
     get_crumb ''https://query1.finance.yahoo.com/v1/test/getcrumb'' ''failed to get crumb: ''"

definition getCrumbCSRFInternal :: "env \<Rightarrow> world \<Rightarrow> (error + string) \<times> world" where
  "getCrumbCSRFInternal =
     get_crumb ''https://query2.finance.yahoo.com/v1/test/getcrumb''
       ''failed to get crumb via CSRF: ''"

definition getCookieAndCrumbBasicInternal :: "env \<Rightarrow> world \<Rightarrow> (error + string) \<times> world" where
  "getCookieAndCrumbBasicInternal E w =
     (case getCookieBasicInternal E w of
        (Some err, w1) \<Rightarrow> (Inl (Wrapf ''failed to get cookie: '' err), w1)
      | (None, w1) \<Rightarrow> getCrumbBasicInternal E w1)"

text \<open>\<open>extractInputValue\<close>.  \<open>first_of a b\<close> is the second search, made when the
  first found nothing.\<close>

definition first_of :: "nat option \<Rightarrow> nat option \<Rightarrow> nat option" where
  "first_of a b = (case a of Some i \<Rightarrow> Some i | None \<Rightarrow> b)"

definition extractInputValue :: "string \<Rightarrow> string \<Rightarrow> string" where
  "extractInputValue html name =
     (case first_of (Index html (''name='' @ [CHR 0x22] @ name @ [CHR 0x22]))
                    (Index html (''name='' @ [CHR 0x27] @ name @ [CHR 0x27])) of
        None \<Rightarrow> []
      | Some idx \<Rightarrow>
          (case first_of (Index (drop idx html) (''value='' @ [CHR 0x22]))
                         (Index (drop idx html) (''value='' @ [CHR 0x27])) of
             None \<Rightarrow> []
           | Some v \<Rightarrow>
               (let valueStart = v + (idx + 7) in
                (case first_of (Index (drop valueStart html) [CHR 0x22])
                               (Index (drop valueStart html) [CHR 0x27]) of
                   None \<Rightarrow> []
                 | Some valueEnd \<Rightarrow> take valueEnd (drop valueStart html)))))"

text \<open>One request of the consent flow whose response is closed unread (steps 2
  and 3 of \<open>getCookieCSRFInternal\<close>).\<close>

definition send_unread :: "env \<Rightarrow> request \<Rightarrow> world \<Rightarrow> error option \<times> world" where
  "send_unread E req w =
     (case NewRequest_error E (Method req) (URL req) of
        Some err \<Rightarrow> (Some err, w)
      | None \<Rightarrow>
          (case client_Do_cred E req w of
             (Inl err, w1) \<Rightarrow> (Some err, w1)
           | (Inr resp, w1) \<Rightarrow> (None, w1)))"

definition getCookieCSRFInternal :: "env \<Rightarrow> world \<Rightarrow> error option \<times> world" where
  "getCookieCSRFInternal E w =
     (case NewRequest_error E ''GET'' ''https://guce.yahoo.com/consent'' of
        Some err \<Rightarrow> (Some err, w)
      | None \<Rightarrow>
          (let req = setBrowserHeadersWithUA (new_request ''GET'' ''https://guce.yahoo.com/consent'' None)
                       (userAgent w)
           in (case client_Do_cred E req w of
                 (Inl err, w1) \<Rightarrow> (Some err, w1)
               | (Inr resp, w1) \<Rightarrow>
                   (case Body resp of
                      Inl err \<Rightarrow> (Some err, w1)
                    | Inr htmlBody \<Rightarrow>
                        (let csrfToken = extractInputValue htmlBody ''csrfToken'' in
                         if csrfToken = [] then (Some (Errorf ''failed to find csrfToken''), w1)
                         else
                           (let sessionId0 = extractInputValue htmlBody ''sessionId'';
                                sessionId = (if sessionId0 = [] then sessionID w1 else sessionId0);
                                formData = [(''agree'', ''agree''), (''consentUUID'', ''default''),
                                            (''sessionId'', sessionId), (''csrfToken'', csrfToken),
                                            (''originalDoneUrl'', ''https://finance.yahoo.com/''),
                                            (''namespace'', ''yahoo'')];
                                consentURL = ''https://consent.yahoo.com/v2/collectConsent?sessionId='' @ sessionId;
                                req2 = Header_Set ''Content-Type'' ''application/x-www-form-urlencoded''
                                         (setBrowserHeadersWithUA
                                            (new_request ''POST'' consentURL (Some (Values_Encode E formData)))
                                            (userAgent w1))
                            in (case send_unread E req2 w1 of
                                  (Some err, w2) \<Rightarrow> (Some err, w2)
                                | (None, w2) \<Rightarrow>
                                    (let copyURL = ''https://guce.yahoo.com/copyConsent?sessionId='' @ sessionId;
                                         req3 = setBrowserHeadersWithUA (new_request ''GET'' copyURL None)
                                                  (userAgent w2)
                                     in (case send_unread E req3 w2 of
                                           (Some err, w3) \<Rightarrow> (Some err, w3)
                                         | (None, w3) \<Rightarrow> (None, w3\<lparr>cookie := ''csrf-obtained''\<rparr>))))))))))"

definition getCookieAndCrumbCSRFInternal :: "env \<Rightarrow> world \<Rightarrow> (error + string) \<times> world" where
  "getCookieAndCrumbCSRFInternal E w =
     (case getCookieCSRFInternal E w of
        (Some err, w1) \<Rightarrow> (Inl err, w1)
      | (None, w1) \<Rightarrow> getCrumbCSRFInternal E w1)"

text \<open>\<open>getCookieAndCrumb\<close>, lines 495--535.  The result of \<open>saveCookieCache\<close> is
  dropped, as in the code.\<close>

definition getCookieAndCrumb :: "env \<Rightarrow> world \<Rightarrow> (error + string) \<times> world" where
  "getCookieAndCrumb E w =
     (if crumb w \<noteq> [] then (Inr (crumb w), w)
      else
        (let (res, w2) =
               (if cookieStrategy w = ''csrf'' then
                  (case getCookieAndCrumbCSRFInternal E w of
                     (Inl err, w1) \<Rightarrow> getCookieAndCrumbBasicInternal E (w1\<lparr>cookieStrategy := ''basic''\<rparr>)
                   | (Inr c, w1) \<Rightarrow> (Inr c, w1))
                else
                  (case getCookieAndCrumbBasicInternal E w of
                     (Inl err, w1) \<Rightarrow> getCookieAndCrumbCSRFInternal E (w1\<lparr>cookieStrategy := ''csrf''\<rparr>)
                   | (Inr c, w1) \<Rightarrow> (Inr c, w1)))
         in (case res of
               Inl err \<Rightarrow> (Inl err, w2)
             | Inr c \<Rightarrow>
                 if \<not> isValidCrumb c then (Inl (Errorf (''invalid crumb received: '' @ c)), w2)
                 else (Inr c, snd (saveCookieCache E (w2\<lparr>crumb := c\<rparr>))))))"


subsection \<open>The request and retry loop\<close>

definition switchCookieStrategy :: "world \<Rightarrow> world" where
  "switchCookieStrategy w =
     (let w1 = (if cookieStrategy w = ''basic'' then w\<lparr>cookieStrategy := ''csrf''\<rparr>
                else w\<lparr>cookieStrategy := ''basic''\<rparr>)
      in w1\<lparr>crumb := [], cookie := [], trace := trace w1 @ [SwitchStrategy]\<rparr>)"

definition acceptConsent :: "world \<Rightarrow> error option \<times> world" where
  "acceptConsent w = (None, w\<lparr>crumb := [], cookie := [], cookieStrategy := ''csrf''\<rparr>)"

definition ResetCrumb :: "world \<Rightarrow> world" where
  "ResetCrumb w = w\<lparr>crumb := [], cookie := []\<rparr>"

definition isConsentURL :: "env \<Rightarrow> string \<Rightarrow> bool" where
  "isConsentURL E urlStr =
     (case url_Hostname E urlStr of
        None \<Rightarrow> False
      | Some host \<Rightarrow> HasSuffix host ''consent.yahoo.com'')"

definition IsTransientError :: "error option \<Rightarrow> bool" where
  "IsTransientError err = (if err = None then False else True)"

text \<open>
  \<open>doRequest\<close>, lines 413--459.  \<open>params\<close> is the Go map as a list of pairs; the
  \<open>body\<close> argument is \<open>None\<close> for \<open>nil\<close> and otherwise what \<open>json.Marshal\<close> makes of
  it, the JSON text or an error.
\<close>

definition doRequest ::
  "env \<Rightarrow> string \<Rightarrow> string \<Rightarrow> (string \<times> string) list \<Rightarrow> (error + string) option \<Rightarrow> world
     \<Rightarrow> (error + http_response) \<times> world" where
  "doRequest E method endpoint params body w =
     (let reqURL = (if length params > 0 then endpoint @ ''?'' @ Values_Encode E params
                    else endpoint);
          (res, w1) = getCookieAndCrumb E w;
          c = (case res of Inl err \<Rightarrow> [] | Inr c \<Rightarrow> c);
          reqURL = (if c \<noteq> [] then
                      (if Contains reqURL ''?'' then reqURL @ ''&crumb='' @ QueryEscape E c
                       else reqURL @ ''?crumb='' @ QueryEscape E c)
                    else reqURL)
      in (case body of
            Some (Inl err) \<Rightarrow> (Inl (Wrapf ''failed to marshal request body: '' err), w1)
          | _ \<Rightarrow>
              (let reqBody = (case body of Some (Inr jsonBody) \<Rightarrow> Some jsonBody | _ \<Rightarrow> None) in
               (case NewRequest_error E method reqURL of
                  Some err \<Rightarrow> (Inl (Wrapf ''failed to create request: '' err), w1)
                | None \<Rightarrow>
                    client_Do_api E
                      (setBrowserHeadersWithUA (new_request method reqURL reqBody) (userAgent w1))
                      w1))))"

text \<open>
  The backoff of lines 344--347 and 363--366:
  \<open>time.Duration(math.Pow(2, float64(attempt))) * time.Second\<close>, lowered to 30
  seconds when it is more.  A \<open>time.Duration\<close> is an \<open>int64\<close> of nanoseconds, so the
  product wraps and the comparison is signed.  \<open>math.Pow\<close> is exact on powers of
  two, and the conversion is exact below \<open>2 ^ 63\<close>.
\<close>

definition pow2_Duration :: "env \<Rightarrow> int \<Rightarrow> 64 word" where
  "pow2_Duration E attempt =
     (if attempt < 63 then word_of_int (2 ^ nat attempt) else huge_Duration E)"

definition backoff :: "env \<Rightarrow> int \<Rightarrow> 64 word" where
  "backoff E attempt =
     (let b = pow2_Duration E attempt * Second in
      if 30 * Second <s b then 30 * Second else b)"

text \<open>How long a call of \<open>time.Sleep\<close> waits, in nanoseconds: it returns at once on
  a duration that is zero or negative.\<close>

definition waited :: "64 word \<Rightarrow> int" where
  "waited d = max 0 (sint d)"

definition time_Sleep :: "64 word \<Rightarrow> world \<Rightarrow> world" where
  "time_Sleep d w = w\<lparr>now := now w + waited d, trace := trace w @ [Sleep d]\<rparr>"

text \<open>
  \<open>makeRequest\<close>, lines 332--396.  \<open>attempt_loop\<close> is the \<open>for\<close> loop from the test
  \<open>attempt <= retries\<close> on, with the loop variable and \<open>lastErr\<close> as arguments;
  every \<open>continue\<close> goes through \<open>attempt++\<close>.  The result is the pair the Go
  function returns, a response or \<open>nil\<close> and an error or \<open>nil\<close>.
\<close>

function attempt_loop ::
  "env \<Rightarrow> int \<Rightarrow> string \<Rightarrow> string \<Rightarrow> (string \<times> string) list \<Rightarrow> (error + string) option
     \<Rightarrow> int \<Rightarrow> error option \<Rightarrow> world \<Rightarrow> (http_response option \<times> error option) \<times> world" where
  "attempt_loop E retries method endpoint params body attempt lastErr w =
     (if attempt \<le> retries then
        (case doRequest E method endpoint params body w of
           (Inl err, w1) \<Rightarrow>
             if IsTransientError (Some err) \<and> attempt < retries then
               attempt_loop E retries method endpoint params body (attempt + 1) (Some err)
                 (time_Sleep (backoff E attempt) w1)
             else ((None, Some err), w1)
         | (Inr resp, w1) \<Rightarrow>
             if StatusCode resp = 429 then
               (let w2 = switchCookieStrategy w1 in
                if attempt < retries then
                  attempt_loop E retries method endpoint params body (attempt + 1)
                    (Some YFRateLimitError) (time_Sleep (backoff E attempt) w2)
                else ((None, Some YFRateLimitError), w2))
             else if isConsentURL E (RequestURL resp) then
               (case acceptConsent w1 of
                  (Some err, w2) \<Rightarrow> ((None, Some err), w2)
                | (None, w2) \<Rightarrow>
                    attempt_loop E retries method endpoint params body (attempt + 1) lastErr w2)
             else if StatusCode resp = 401 \<or> StatusCode resp = 403 then
               (let w2 = ResetCrumb w1 in
                if attempt < retries then
                  attempt_loop E retries method endpoint params body (attempt + 1) lastErr w2
                else ((None, Some (Errorf_d ''authentication failed: '' (StatusCode resp))), w2))
             else ((Some resp, None), w1))
      else ((None, lastErr), w))"
  by pat_completeness auto
termination
  by (relation "measure (\<lambda>(E, retries, method, endpoint, params, body, attempt, lastErr, w).
        nat (retries + 1 - attempt))") auto

declare attempt_loop.simps [simp del]

definition makeRequest ::
  "env \<Rightarrow> Config \<Rightarrow> string \<Rightarrow> string \<Rightarrow> (string \<times> string) list \<Rightarrow> (error + string) option
     \<Rightarrow> world \<Rightarrow> (http_response option \<times> error option) \<times> world" where
  "makeRequest E GlobalConfig method endpoint params body w =
     (let retries = Retries GlobalConfig;
          retries = (if retries = 0 then 3 else retries)
      in attempt_loop E retries method endpoint params body 0 None w)"


section \<open>Definitions for the proofs and the examples\<close>

text \<open>The symbols in flight, and the invariant of the pool: every symbol of the job
  set is in exactly one place (the channel, a goroutine, \<open>Succeeded\<close> or \<open>Failed\<close>),
  the maps follow the slices, and a goroutine exits only once the channel is
  empty.\<close>

fun in_flight :: "worker \<Rightarrow> string multiset" where
  "in_flight (Fetching t) = {#t#}"
| "in_flight Receiving = {#}"
| "in_flight Exited = {#}"

definition pool_inv :: "string list \<Rightarrow> 'h pool \<Rightarrow> bool" where
  "pool_inv tickers p \<longleftrightarrow>
     mset (tickerChan p) + sum_list (map in_flight (goroutines p))
       + mset (Succeeded (result p)) + mset (Failed (result p)) = mset tickers
     \<and> dom (Data (result p)) = set (Succeeded (result p))
     \<and> dom (Errors (result p)) = set (Failed (result p))
     \<and> (Exited \<in> set (goroutines p) \<longrightarrow> tickerChan p = [])
     \<and> mset (fetched p) = sum_list (map in_flight (goroutines p))
       + mset (Succeeded (result p)) + mset (Failed (result p))"

text \<open>
  Vocabulary for strings through JSON.  \<open>expands s t\<close>: \<open>t\<close> is \<open>s\<close> with every
  ASCII byte kept in its place and every other byte replaced by one or more
  bytes outside ASCII.
\<close>

definition ascii :: "char \<Rightarrow> bool" where
  "ascii b = in_range b 0x00 0x7F"

inductive expands :: "string \<Rightarrow> string \<Rightarrow> bool" where
  nil: "expands [] []"
| keep: "ascii b \<Longrightarrow> expands s t \<Longrightarrow> expands (b # s) (b # t)"
| swap: "\<not> ascii b \<Longrightarrow> chunk \<noteq> [] \<Longrightarrow> list_all (\<lambda>c. \<not> ascii c) chunk \<Longrightarrow> expands s t
         \<Longrightarrow> expands (b # s) (chunk @ t)"

text \<open>
  Vocabulary for the session manager.  \<open>cred_frame w w'\<close>: from \<open>w\<close> to \<open>w'\<close> nothing
  changed but the cookie, the count of credential requests and the trace, which
  grew by credential requests only.  \<open>acquire s\<close> is the strategy
  \<open>getCookieAndCrumb\<close> runs for the remembered name \<open>s\<close> (the consent flow for
  \<open>csrf\<close>, the basic flow for every other string) and \<open>other_strategy s\<close> the name
  it falls back to; \<open>validate_and_save\<close> is lines 523--534.  \<open>switch_count\<close> counts
  the calls of \<open>switchCookieStrategy\<close> in a trace and \<open>sleeps\<close> lists the arguments
  of its calls of \<open>time.Sleep\<close>.
\<close>

fun is_cred :: "event \<Rightarrow> bool" where
  "is_cred (CredSent req) = True"
| "is_cred e = False"

definition cred_frame :: "world \<Rightarrow> world \<Rightarrow> bool" where
  "cred_frame w w' \<longleftrightarrow>
     crumb w' = crumb w \<and> cache_file w' = cache_file w \<and> cacheDir w' = cacheDir w
     \<and> cookieStrategy w' = cookieStrategy w \<and> userAgent w' = userAgent w
     \<and> sessionID w' = sessionID w \<and> now w' = now w \<and> api_calls w' = api_calls w
     \<and> (\<exists>evs. trace w' = trace w @ evs \<and> list_all is_cred evs)"

definition acquire :: "string \<Rightarrow> env \<Rightarrow> world \<Rightarrow> (error + string) \<times> world" where
  "acquire strategy =
     (if strategy = ''csrf'' then getCookieAndCrumbCSRFInternal
      else getCookieAndCrumbBasicInternal)"

definition other_strategy :: "string \<Rightarrow> string" where
  "other_strategy strategy = (if strategy = ''csrf'' then ''basic'' else ''csrf'')"

definition validate_and_save :: "env \<Rightarrow> (error + string) \<times> world \<Rightarrow> (error + string) \<times> world" where
  "validate_and_save E rw =
     (case fst rw of
        Inl err \<Rightarrow> (Inl err, snd rw)
      | Inr c \<Rightarrow>
          if \<not> isValidCrumb c then (Inl (Errorf (''invalid crumb received: '' @ c)), snd rw)
          else (Inr c, snd (saveCookieCache E ((snd rw)\<lparr>crumb := c\<rparr>))))"


definition switch_count :: "event list \<Rightarrow> nat" where
  "switch_count evs = length (filter (\<lambda>e. e = SwitchStrategy) evs)"

fun sleeps :: "event list \<Rightarrow> 64 word list" where
  "sleeps [] = []"
| "sleeps (Sleep d # evs) = d # sleeps evs"
| "sleeps (e # evs) = sleeps evs"

text \<open>Concrete inputs for the examples below.\<close>

definition example_options :: DownloadOptions where
  "example_options =
     \<lparr>Tickers = [''aapl, msft'', '' AAPL '', ''goog,''], Period = ''1mo'', Interval = ''1d'',
      Threads = 2\<rparr>"

definition example_hist :: "nat \<Rightarrow> string \<Rightarrow> error + unit" where
  "example_hist k t = (if t = ''MSFT'' then Inl (Errorf ''chart error'') else Inr ())"

definition example_result :: "unit DownloadResult" where
  "example_result =
     \<lparr>Data = [''AAPL'' \<mapsto> (), ''GOOG'' \<mapsto> ()], Errors = [''MSFT'' \<mapsto> Errorf ''chart error''],
      Failed = [''MSFT''], Succeeded = [''AAPL'', ''GOOG'']\<rparr>"

definition trailing_comma :: DownloadOptions where
  "trailing_comma = \<lparr>Tickers = [''aapl,''], Period = ''1mo'', Interval = ''1d'', Threads = 4\<rparr>"

definition five_symbols :: DownloadOptions where
  "five_symbols =
     \<lparr>Tickers = [''AAPL'', ''MSFT'', ''GOOG'', ''AMZN'', ''META''], Period = ''1mo'',
      Interval = ''1d'', Threads = 4\<rparr>"


text \<open>Concrete environments and states for the examples of the session manager.
  \<open>simple_hostname\<close> stands in for \<open>url.Parse\<close> and \<open>Hostname\<close>, \<open>simple_encode\<close> for
  \<open>url.Values.Encode\<close>, on the URLs and parameters of the examples.\<close>

definition simple_hostname :: "string \<Rightarrow> string option" where
  "simple_hostname u =
     (if HasPrefix u ''https://'' then Some (takeWhile (\<lambda>c. c \<noteq> CHR ''/'') (drop 8 u))
      else None)"

definition simple_encode :: "(string \<times> string) list \<Rightarrow> string" where
  "simple_encode ps = concat (map (\<lambda>p. fst p @ ''='' @ snd p) ps)"

definition chart_url :: string where
  "chart_url = ''https://query2.finance.yahoo.com/v8/finance/chart/AAPL''"

definition response :: "int \<Rightarrow> string \<Rightarrow> http_response" where
  "response status b =
     \<lparr>StatusCode = status, Body = Inr b, Cookies = [(''A3'', ''d=AQAB'')], JarCookies = [],
      RequestURL = chart_url\<rparr>"

definition consent_response :: http_response where
  "consent_response =
     \<lparr>StatusCode = 200, Body = Inr ''consent'', Cookies = [], JarCookies = [],
      RequestURL = ''https://guce.consent.yahoo.com/v2/collectConsent''\<rparr>"

definition base_env :: env where
  "base_env =
     \<lparr>api_script = (\<lambda>k. Inl (External ''connection refused'')),
      cred_script = (\<lambda>k. Inl (External ''connection refused'')),
      Values_Encode = simple_encode,
      QueryEscape = (\<lambda>s. s),
      url_Hostname = simple_hostname,
      NewRequest_error = (\<lambda>method url. None),
      WriteFile_error = None,
      huge_Duration = 0\<rparr>"

definition init_world :: world where
  "init_world =
     \<lparr>crumb = [], cookie = [], cookieStrategy = ''basic'', userAgent = ''Mozilla/5.0'',
      cacheDir = ''/home/u/.cache/yfinance-go'', sessionID = ''0123456789abcdef'',
      cache_file = None, now = 0, api_calls = 0, cred_calls = 0, trace = []\<rparr>"

definition default_config :: Config where
  "default_config = \<lparr>Proxy = [], Retries = 0, Timeout = 30\<rparr>"

text \<open>Every credential endpoint answers with an HTML error page.\<close>

definition html_page :: string where
  "html_page = ''<html>Too Many Requests</html>''"

definition env_html :: env where
  "env_html = base_env\<lparr>cred_script := (\<lambda>k. Inr (response 200 html_page))\<rparr>"

text \<open>The crumb endpoint of the basic strategy is rate limited; the consent flow
  goes through and its crumb endpoint answers with a crumb.\<close>

definition consent_page :: string where
  "consent_page =
     ''<input name='' @ [CHR 0x22] @ ''csrfToken'' @ [CHR 0x22] @ '' value='' @ [CHR 0x22]
       @ ''tok1'' @ [CHR 0x22] @ ''>''"

definition env_fallback :: env where
  "env_fallback =
     base_env\<lparr>cred_script :=
       (\<lambda>k. if k = 1 then Inr (response 429 [])
            else if k = 2 then Inr (response 200 consent_page)
            else Inr (response 200 ''abc123''))\<rparr>"

text \<open>The crumb endpoint answers with a text that the strategy accepts and
  \<open>isValidCrumb\<close> rejects.\<close>

definition env_yahoo :: env where
  "env_yahoo = base_env\<lparr>cred_script := (\<lambda>k. Inr (response 200 ''Yahoo is down''))\<rparr>"


definition env_consent :: env where
  "env_consent =
     base_env\<lparr>api_script := (\<lambda>k. if k < 2 then Inr consent_response else Inr (response 200 ''{}''))\<rparr>"

definition one_retry :: Config where
  "one_retry = \<lparr>Proxy = [], Retries = 1, Timeout = 30\<rparr>"

text \<open>Every request is answered with 429, and 35 retries are configured.\<close>

definition env_limited :: env where
  "env_limited = base_env\<lparr>api_script := (\<lambda>k. Inr (response 429 []))\<rparr>"

definition many_retries :: Config where
  "many_retries = \<lparr>Proxy = [], Retries = 35, Timeout = 30\<rparr>"

text \<open>A state with credentials, and one whose crumb holds the word the validity
  check looks for.\<close>

definition with_credentials :: world where
  "with_credentials =
     init_world\<lparr>crumb := ''abc123'', cookie := ''d=AQAB'', cookieStrategy := ''csrf'', now := 1000\<rparr>"

definition with_odd_crumb :: world where
  "with_odd_crumb = with_credentials\<lparr>crumb := ''mYahooX1''\<rparr>"

text \<open>And one whose crumb ends on a byte that is not valid UTF-8.\<close>

definition with_bad_byte :: world where
  "with_bad_byte = with_credentials\<lparr>crumb := [CHR ''a'', CHR ''b'', CHR 0xFF]\<rparr>"


section \<open>Properties of the orchestrator\<close>

lemma add_part_inv:
  assumes "\<forall>p. snd st p \<longleftrightarrow> p \<in> set (fst st)" "distinct (fst st)"
  shows "(\<forall>p. snd (add_part p0 st) p \<longleftrightarrow> p \<in> set (fst (add_part p0 st)))
         \<and> distinct (fst (add_part p0 st))
         \<and> set (fst (add_part p0 st)) = set (fst st) \<union> ({ToUpper (TrimSpace p0)} - {[]})"
  using assms by (auto simp: add_part_def Let_def)

lemma fold_add_part_inv:
  assumes "\<forall>p. snd st p \<longleftrightarrow> p \<in> set (fst st)" "distinct (fst st)"
  shows "(\<forall>p. snd (fold add_part ps st) p \<longleftrightarrow> p \<in> set (fst (fold add_part ps st)))
         \<and> distinct (fst (fold add_part ps st))
         \<and> set (fst (fold add_part ps st))
             = set (fst st) \<union> ((\<lambda>p. ToUpper (TrimSpace p)) ` set ps - {[]})"
  using assms
proof (induction ps arbitrary: st)
  case Nil
  then show ?case by simp
next
  case (Cons p0 ps)
  have step: "(\<forall>p. snd (add_part p0 st) p \<longleftrightarrow> p \<in> set (fst (add_part p0 st)))"
    "distinct (fst (add_part p0 st))"
    "set (fst (add_part p0 st)) = set (fst st) \<union> ({ToUpper (TrimSpace p0)} - {[]})"
    using add_part_inv [OF Cons.prems] by blast+
  from Cons.IH [OF step(1) step(2)] step(3) show ?case
    by (simp only: fold_simps) auto
qed

lemma fold_add_ticker_inv:
  assumes "\<forall>p. snd st p \<longleftrightarrow> p \<in> set (fst st)" "distinct (fst st)"
  shows "(\<forall>p. snd (fold add_ticker ts st) p \<longleftrightarrow> p \<in> set (fst (fold add_ticker ts st)))
         \<and> distinct (fst (fold add_ticker ts st))
         \<and> set (fst (fold add_ticker ts st)) = set (fst st) \<union> (spec_normal_form ts - {[]})"
  using assms
proof (induction ts arbitrary: st)
  case Nil
  then show ?case by (simp add: spec_normal_form_def)
next
  case (Cons t ts)
  have step: "(\<forall>p. snd (add_ticker t st) p \<longleftrightarrow> p \<in> set (fst (add_ticker t st)))"
    "distinct (fst (add_ticker t st))"
    "set (fst (add_ticker t st))
       = set (fst st) \<union> ((\<lambda>p. ToUpper (TrimSpace p)) ` set (Split t CHR '','') - {[]})"
    using fold_add_part_inv [OF Cons.prems] unfolding add_ticker_def by blast+
  from Cons.IH [OF step(1) step(2)] step(3) show ?case
    by (simp only: fold_simps) (auto simp: spec_normal_form_def)
qed

lemma normalize_tickers_distinct: "distinct (normalize_tickers ts)"
  using fold_add_ticker_inv [of "([], \<lambda>_. False)" ts] by (simp add: normalize_tickers_def)

lemma normalize_tickers_set: "set (normalize_tickers ts) = spec_normal_form ts - {[]}"
  using fold_add_ticker_inv [of "([], \<lambda>_. False)" ts] by (simp add: normalize_tickers_def)

lemma in_flight_update:
  "i < length ws \<Longrightarrow>
   sum_list (map in_flight (ws[i := v])) + in_flight (ws ! i) = sum_list (map in_flight ws) + in_flight v"
proof (induction ws arbitrary: i)
  case Nil
  then show ?case by simp
next
  case (Cons w ws)
  show ?case
  proof (cases i)
    case 0
    then show ?thesis by (simp add: ac_simps)
  next
    case (Suc j)
    with Cons.prems have "j < length ws" by simp
    from Cons.IH [OF this] Suc show ?thesis by (simp add: ac_simps)
  qed
qed

lemma in_flight_receive:
  assumes "i < length ws" "ws ! i = Receiving"
  shows "sum_list (map in_flight (ws[i := Fetching t])) = sum_list (map in_flight ws) + {#t#}"
    and "sum_list (map in_flight (ws[i := Exited])) = sum_list (map in_flight ws)"
  using in_flight_update [OF assms(1), of "Fetching t"] in_flight_update [OF assms(1), of Exited] assms(2)
  by simp_all

lemma in_flight_done:
  assumes "i < length ws" "ws ! i = Fetching t"
  shows "sum_list (map in_flight (ws[i := Receiving])) + {#t#} = sum_list (map in_flight ws)"
  using in_flight_update [OF assms(1), of Receiving] assms(2) by simp

lemma Exited_update:
  "Exited \<in> set (ws[i := v]) \<Longrightarrow> v \<noteq> Exited \<Longrightarrow> Exited \<in> set ws"
  by (metis in_set_conv_nth length_list_update nth_list_update_eq nth_list_update_neq)

lemma goroutine_step_inv:
  assumes "pool_inv tickers p"
  shows "pool_inv tickers (goroutine_step hist i p)"
proof (cases "i < length (goroutines p)")
  case False
  with assms show ?thesis by (simp add: goroutine_step_def)
next
  case i: True
  show ?thesis
  proof (cases "goroutines p ! i")
    case Receiving
    show ?thesis
    proof (cases "tickerChan p")
      case Nil
      with assms i Receiving show ?thesis
        by (simp add: goroutine_step_def pool_inv_def in_flight_receive)
    next
      case (Cons t rest)
      with assms have "Exited \<notin> set (goroutines p)" by (auto simp: pool_inv_def)
      then have "Exited \<notin> set ((goroutines p)[i := Fetching t])"
        using Exited_update by blast
      with assms i Receiving Cons show ?thesis
        by (simp add: goroutine_step_def pool_inv_def in_flight_receive)
    qed
  next
    case (Fetching t)
    have ex: "Exited \<in> set ((goroutines p)[i := Receiving]) \<Longrightarrow> Exited \<in> set (goroutines p)"
      using Exited_update by blast
    from in_flight_done [OF i Fetching]
    have fl: "sum_list (map in_flight (goroutines p))
                = sum_list (map in_flight ((goroutines p)[i := Receiving])) + {#t#}" by simp
    show ?thesis
      using assms i Fetching ex unfolding goroutine_step_def pool_inv_def fl
      by (cases "hist (length (Succeeded (result p)) + length (Failed (result p))) t")
         (auto simp: record_outcome_def)
  next
    case Exited
    with assms i show ?thesis by (simp add: goroutine_step_def)
  qed
qed

lemma run_pool_inv: "pool_inv tickers p \<Longrightarrow> pool_inv tickers (run_pool hist sched p)"
  by (induction sched arbitrary: p) (simp_all add: goroutine_step_inv)

lemma in_flight_idle: "sum_list (replicate n ({#} :: string multiset)) = {#}"
  by (induction n) simp_all

lemma init_pool_inv: "pool_inv (normalize_tickers (Tickers options)) (init_pool options :: 'h pool)"
  by (simp add: pool_inv_def init_pool_def Let_def empty_result_def in_flight_idle)

lemma goroutine_step_length: "length (goroutines (goroutine_step hist i p)) = length (goroutines p)"
  by (auto simp: goroutine_step_def split: worker.splits list.splits)

lemma run_pool_length: "length (goroutines (run_pool hist sched p)) = length (goroutines p)"
  by (induction sched arbitrary: p) (simp_all add: goroutine_step_length)

lemma in_flight_exited: "list_all (\<lambda>w. w = Exited) ws \<Longrightarrow> sum_list (map in_flight ws) = {#}"
  by (induction ws) auto

lemma worker_count_pos: "0 < n \<Longrightarrow> 0 < worker_count threads n"
  by (simp add: worker_count_def Let_def)

lemma pool_done:
  assumes inv: "pool_inv tickers p" and fin: "wait_done p"
    and len: "tickers \<noteq> [] \<longrightarrow> goroutines p \<noteq> []"
  shows "mset (Succeeded (result p)) + mset (Failed (result p)) = mset tickers"
    and "mset (fetched p) = mset tickers"
proof -
  have fl: "sum_list (map in_flight (goroutines p)) = {#}"
    using fin by (simp add: wait_done_def in_flight_exited)
  have "tickerChan p = []"
  proof (cases "goroutines p")
    case Nil
    with len have "tickers = []" by blast
    with inv show ?thesis by (simp add: pool_inv_def)
  next
    case (Cons w ws)
    with fin have "Exited \<in> set (goroutines p)" by (simp add: wait_done_def)
    with inv show ?thesis by (simp add: pool_inv_def)
  qed
  with inv fl show "mset (Succeeded (result p)) + mset (Failed (result p)) = mset tickers"
    and "mset (fetched p) = mset tickers"
    by (simp_all add: pool_inv_def)
qed

lemma run_pool_append: "run_pool hist (a @ b) p = run_pool hist b (run_pool hist a p)"
  by (induction a arbitrary: p) simp_all

lemma drain_queue:
  assumes "goroutines p = replicate n Receiving" "0 < n"
  shows "goroutines (run_pool hist (replicate (2 * length (tickerChan p)) 0) p) = replicate n Receiving
         \<and> tickerChan (run_pool hist (replicate (2 * length (tickerChan p)) 0) p) = []"
  using assms
proof (induction "tickerChan p" arbitrary: p)
  case Nil
  then show ?case by simp
next
  case (Cons t q)
  let ?p1 = "goroutine_step hist 0 p"
  let ?p2 = "goroutine_step hist 0 ?p1"
  from Cons.hyps(2) [symmetric] Cons.prems
  have p1: "tickerChan ?p1 = q" "goroutines ?p1 = (replicate n Receiving)[0 := Fetching t]"
    by (simp_all add: goroutine_step_def)
  with Cons.prems have p2: "tickerChan ?p2 = q" "goroutines ?p2 = replicate n Receiving"
    by (simp_all add: goroutine_step_def list_update_same_conv)
  from Cons.hyps(1) [of ?p2] p2 Cons.prems(2)
  have "goroutines (run_pool hist (replicate (2 * length q) 0) ?p2) = replicate n Receiving
         \<and> tickerChan (run_pool hist (replicate (2 * length q) 0) ?p2) = []"
    by simp
  then show ?case using Cons.hyps(2) [symmetric] by simp
qed

lemma close_workers:
  assumes "tickerChan p = []" "goroutines p = replicate n Receiving" "k \<le> n"
  shows "goroutines (run_pool hist [0 ..< k] p) = replicate k Exited @ replicate (n - k) Receiving
         \<and> tickerChan (run_pool hist [0 ..< k] p) = []"
  using assms(3)
proof (induction k)
  case 0
  with assms show ?case by simp
next
  case (Suc k)
  let ?p = "run_pool hist [0 ..< k] p"
  from Suc have IH: "goroutines ?p = replicate k Exited @ replicate (n - k) Receiving" "tickerChan ?p = []"
    by simp_all
  from Suc.prems obtain m where m: "n - k = Suc m" by (cases "n - k") auto
  then have m': "n - Suc k = m" by simp
  have "goroutines (goroutine_step hist k ?p) = replicate (Suc k) Exited @ replicate (n - Suc k) Receiving"
    using IH m unfolding m' by (simp add: goroutine_step_def nth_append list_update_append replicate_append_same)
  moreover have "tickerChan (goroutine_step hist k ?p) = []"
    using IH m by (simp add: goroutine_step_def nth_append)
  ultimately show ?case by (simp add: run_pool_append)
qed

lemma drain_schedule_done:
  "wait_done (run_pool hist (drain_schedule options) (init_pool options :: 'h pool))"
proof -
  let ?ts = "normalize_tickers (Tickers options)"
  let ?n = "nat (worker_count (Threads options) (int (length ?ts)))"
  let ?p0 = "init_pool options :: 'h pool"
  let ?p1 = "run_pool hist (replicate (2 * length ?ts) 0) ?p0"
  have g0: "goroutines ?p0 = replicate ?n Receiving" "tickerChan ?p0 = ?ts"
    by (simp_all add: init_pool_def Let_def)
  have p1: "goroutines ?p1 = replicate ?n Receiving \<and> tickerChan ?p1 = []"
  proof (cases "?ts = []")
    case True
    with g0 show ?thesis by simp
  next
    case False
    then have "0 < ?n" using worker_count_pos [of "int (length ?ts)" "Threads options"] by simp
    from drain_queue [OF g0(1) this, of hist] g0(2) show ?thesis by simp
  qed
  then have "goroutines (run_pool hist [0 ..< ?n] ?p1) = replicate ?n Exited"
    using close_workers [of ?p1 ?n ?n hist] by simp
  then show ?thesis
    by (simp add: drain_schedule_def Let_def run_pool_append wait_done_def list_all_iff)
qed


lemma Download_returned_inv:
  assumes "Download hist sched (Some options) = Returned r err calls"
  shows "mset (Succeeded r) + mset (Failed r) = mset (normalize_tickers (Tickers options))
    \<and> dom (Data r) = set (Succeeded r) \<and> dom (Errors r) = set (Failed r)
    \<and> err = None \<and> mset calls = mset (normalize_tickers (Tickers options))"
proof (cases "Tickers options = []")
  case True
  with assms show ?thesis
    by (auto simp: Download_def Let_def normalize_tickers_def empty_result_def)
next
  case False
  let ?ts = "normalize_tickers (Tickers options)"
  let ?p = "run_pool hist sched (init_pool options)"
  from False assms have fin: "wait_done ?p" and r: "r = result ?p" "calls = fetched ?p" "err = None"
    by (auto simp: Download_def Let_def split: if_splits)
  have inv: "pool_inv ?ts ?p" by (rule run_pool_inv [OF init_pool_inv])
  have "?ts \<noteq> [] \<longrightarrow> goroutines ?p \<noteq> []"
  proof
    assume "?ts \<noteq> []"
    then have "0 < worker_count (Threads options) (int (length ?ts))"
      by (simp add: worker_count_pos)
    then have "length (goroutines (init_pool options :: 'a pool)) \<noteq> 0"
      by (simp add: init_pool_def Let_def)
    then show "goroutines ?p \<noteq> []"
      using run_pool_length [of hist sched "init_pool options"] by auto
  qed
  from pool_done [OF inv fin this] inv r show ?thesis by (simp add: pool_inv_def)
qed

lemma Download_drain_returns: "Download hist (drain_schedule options) (Some options) \<noteq> Blocked"
  by (simp add: Download_def Let_def drain_schedule_done)

text \<open>
  Claim C1, as amended.  Whatever \<open>History\<close> returns and however the goroutines are
  scheduled, when \<open>Download\<close> returns, the symbols of \<open>Succeeded\<close> and \<open>Failed\<close>
  together are exactly the comma-separated pieces of the input, trimmed and
  upper-cased, without the empty piece; no symbol is in both slices and none is
  twice in one; \<open>Data\<close> has the succeeded symbols as keys and \<open>Errors\<close> the failed
  ones; the error returned is \<open>nil\<close>; and each symbol was handed to \<open>History\<close>
  exactly once.  And \<open>Download\<close> does return: under the schedule
  \<open>drain_schedule\<close> it is not blocked, whatever \<open>History\<close> returns.
\<close>

theorem Download_partition:
  "(\<forall>(hist :: nat \<Rightarrow> string \<Rightarrow> error + 'h) sched r err calls.
      Download hist sched (Some options) = Returned r err calls \<longrightarrow>
        set (Succeeded r) \<union> set (Failed r) = spec_normal_form (Tickers options) - {[]}
        \<and> set (Succeeded r) \<inter> set (Failed r) = {}
        \<and> distinct (Succeeded r @ Failed r)
        \<and> dom (Data r) = set (Succeeded r) \<and> dom (Errors r) = set (Failed r)
        \<and> err = None
        \<and> mset calls = mset (Succeeded r @ Failed r))
   \<and> (\<forall>hist :: nat \<Rightarrow> string \<Rightarrow> error + 'h.
        Download hist (drain_schedule options) (Some options) \<noteq> Blocked)"
proof (intro conjI allI impI)
  fix hist :: "nat \<Rightarrow> string \<Rightarrow> error + 'h" and sched r err calls
  assume ret: "Download hist sched (Some options) = Returned r err calls"
  note inv = Download_returned_inv [OF ret]
  let ?ts = "normalize_tickers (Tickers options)"
  have m: "mset (Succeeded r @ Failed r) = mset ?ts" using inv by simp
  then have d: "distinct (Succeeded r @ Failed r)"
    using normalize_tickers_distinct [of "Tickers options"] by (metis mset_eq_imp_distinct_iff)
  then show "distinct (Succeeded r @ Failed r)" .
  from d show "set (Succeeded r) \<inter> set (Failed r) = {}" by simp
  from m have "set (Succeeded r @ Failed r) = set ?ts" by (rule mset_eq_setD)
  then show "set (Succeeded r) \<union> set (Failed r) = spec_normal_form (Tickers options) - {[]}"
    by (simp add: normalize_tickers_set)
  show "dom (Data r) = set (Succeeded r)" "dom (Errors r) = set (Failed r)" "err = None"
    using inv by simp_all
  show "mset calls = mset (Succeeded r @ Failed r)" using inv m by simp
next
  fix hist :: "nat \<Rightarrow> string \<Rightarrow> error + 'h"
  show "Download hist (drain_schedule options) (Some options) \<noteq> Blocked"
    by (rule Download_drain_returns)
qed

lemmas str_simps = ToUpper_def upper_byte_def TrimSpace_def isSpace_def Split_def

lemma example_normalized: "normalize_tickers (Tickers example_options) = [''AAPL'', ''MSFT'', ''GOOG'']"
  by (simp add: example_options_def normalize_tickers_def add_ticker_def add_part_def str_simps Let_def)

lemma example_pool:
  "(init_pool example_options :: unit pool) =
     \<lparr>tickerChan = [''AAPL'', ''MSFT'', ''GOOG''], goroutines = [Receiving, Receiving],
      result = empty_result, fetched = []\<rparr>"
  using example_normalized
  by (simp add: init_pool_def Let_def worker_count_def example_options_def numeral_2_eq_2)

lemma example_run:
  "Download example_hist [0, 1, 1, 0, 0, 0, 1, 0] (Some example_options)
     = Returned example_result None [''AAPL'', ''MSFT'', ''GOOG'']"
proof -
  have "Tickers example_options \<noteq> []" by (simp add: example_options_def)
  then show ?thesis
    by (simp add: Download_def example_pool goroutine_step_def record_outcome_def
        example_hist_def empty_result_def example_result_def wait_done_def)
qed

theorem Download_partition_witness:
  "Download example_hist [0, 1, 1, 0, 0, 0, 1, 0] (Some example_options)
     = Returned example_result None [''AAPL'', ''MSFT'', ''GOOG'']
   \<and> set (Succeeded example_result) \<union> set (Failed example_result)
       = spec_normal_form (Tickers example_options) - {[]}
   \<and> set (Succeeded example_result) \<inter> set (Failed example_result) = {}
   \<and> distinct (Succeeded example_result @ Failed example_result)
   \<and> dom (Data example_result) = set (Succeeded example_result)
   \<and> dom (Errors example_result) = set (Failed example_result)
   \<and> Download example_hist (drain_schedule example_options) (Some example_options) \<noteq> Blocked"
  using Download_partition [of example_options, THEN conjunct1, rule_format, OF example_run]
    Download_partition [of example_options, THEN conjunct2, rule_format, of example_hist]
    example_run
  by simp

text \<open>
  Claim C1 as it is worded fails on a trailing comma: \<open>strings.Split\<close> yields an
  empty piece, which line 79 drops, so the empty string is in the trimmed,
  upper-cased, comma-split form of the input and in neither slice.
\<close>

theorem Download_partition_counterexample:
  "Download (\<lambda>k t. Inr ()) [0, 0, 0] (Some trailing_comma)
     = Returned \<lparr>Data = [''AAPL'' \<mapsto> ()], Errors = Map.empty, Failed = [], Succeeded = [''AAPL'']\<rparr>
         None [''AAPL'']
   \<and> spec_normal_form (Tickers trailing_comma) = {''AAPL'', []}
   \<and> set [''AAPL''] \<union> set [] \<noteq> spec_normal_form (Tickers trailing_comma)"
proof -
  have n: "normalize_tickers (Tickers trailing_comma) = [''AAPL'']"
    by (simp add: trailing_comma_def normalize_tickers_def add_ticker_def add_part_def
        str_simps Let_def)
  have p: "(init_pool trailing_comma :: unit pool) =
      \<lparr>tickerChan = [''AAPL''], goroutines = [Receiving], result = empty_result, fetched = []\<rparr>"
    using n by (simp add: init_pool_def Let_def worker_count_def trailing_comma_def)
  have t: "Tickers trailing_comma \<noteq> []" by (simp add: trailing_comma_def)
  have s: "spec_normal_form (Tickers trailing_comma) = {''AAPL'', []}"
    by (simp add: trailing_comma_def spec_normal_form_def str_simps)
  from t show ?thesis
    by (simp add: s Download_def p goroutine_step_def record_outcome_def empty_result_def
        wait_done_def)
qed

text \<open>
  Claim C6, as amended.  The number of goroutines \<open>Download\<close> starts is the
  configured \<open>Threads\<close>, raised to 1 when it is zero or negative, and then lowered
  to the number of distinct normalised symbols: \<open>min (max Threads 1) n\<close>.
\<close>

theorem pool_size:
  "int (length (goroutines (init_pool options)))
     = min (max (Threads options) 1) (int (length (normalize_tickers (Tickers options))))"
  by (cases "normalize_tickers (Tickers options)")
     (auto simp add: init_pool_def Let_def worker_count_def min_def max_def)

theorem pool_size_witness:
  "int (length (goroutines (init_pool five_symbols :: unit pool))) = 4
   \<and> min (max (Threads five_symbols) 1) (int (length (normalize_tickers (Tickers five_symbols)))) = 4"
proof -
  have "normalize_tickers (Tickers five_symbols) = [''AAPL'', ''MSFT'', ''GOOG'', ''AMZN'', ''META'']"
    by (simp add: five_symbols_def normalize_tickers_def add_ticker_def add_part_def
        str_simps Let_def)
  then show ?thesis
    using pool_size [of five_symbols, where ?'a = unit] by (simp add: five_symbols_def)
qed

text \<open>
  Claim C6 as it is worded, \<open>min (configured, symbols, 1)\<close>, fails: with four
  threads configured and five symbols, four goroutines are started, not one.
\<close>

theorem pool_size_counterexample:
  "int (length (goroutines (init_pool five_symbols :: unit pool))) = 4
   \<and> min (min (Threads five_symbols) (int (length (normalize_tickers (Tickers five_symbols))))) 1 = 1"
proof -
  have "normalize_tickers (Tickers five_symbols) = [''AAPL'', ''MSFT'', ''GOOG'', ''AMZN'', ''META'']"
    by (simp add: five_symbols_def normalize_tickers_def add_ticker_def add_part_def
        str_simps Let_def)
  then show ?thesis
    by (simp add: init_pool_def Let_def worker_count_def five_symbols_def)
qed

text \<open>
  Claim C9.  For a \<open>nil\<close> options pointer, and for options with no tickers,
  \<open>Download\<close> returns, under every schedule and whatever \<open>History\<close> would answer, a
  result whose four collections are empty and a \<open>nil\<close> error, and no symbol was
  handed to \<open>History\<close>.
\<close>

theorem Download_empty:
  "options0 = None \<or> (\<exists>opts. options0 = Some opts \<and> Tickers opts = []) \<Longrightarrow>
   Download hist sched options0
     = Returned \<lparr>Data = Map.empty, Errors = Map.empty, Failed = [], Succeeded = []\<rparr> None []"
  by (auto simp: Download_def DefaultDownloadOptions_def empty_result_def)

theorem Download_empty_witness:
  "Download example_hist [0, 1] None
     = Returned \<lparr>Data = Map.empty, Errors = Map.empty, Failed = [], Succeeded = []\<rparr> None []
   \<and> Download example_hist [0, 1] (Some (example_options\<lparr>Tickers := []\<rparr>))
     = Returned \<lparr>Data = Map.empty, Errors = Map.empty, Failed = [], Succeeded = []\<rparr> None []"
  using Download_empty [of None example_hist "[0, 1]"]
    Download_empty [of "Some (example_options\<lparr>Tickers := []\<rparr>)" example_hist "[0, 1]"]
  by simp


section \<open>Properties of the session manager\<close>

subsection \<open>Strings through JSON\<close>

lemma utf8_from_coerce: "utf8_from k s \<Longrightarrow> coerce_utf8 k s = s"
  by (induction k s rule: coerce_utf8.induct) auto

lemma ValidString_json: "ValidString s \<Longrightarrow> json_string s = s"
  by (simp add: ValidString_def json_string_def utf8_from_coerce)

lemma rune_width_ascii: "ascii b \<Longrightarrow> rune_width (b # bs) = 1"
  by (simp add: rune_width_def ascii_def)

lemma continues_nonascii:
  "continues n lo hi rest \<Longrightarrow> 128 \<le> lo \<Longrightarrow> list_all (\<lambda>c. \<not> ascii c) (take n rest)"
proof (induction n lo hi rest rule: continues.induct)
  case (3 n lo hi b bs)
  then have "\<not> ascii b" by (simp add: in_range_def ascii_def)
  with 3 show ?case by simp
qed simp_all

lemma rune_width_tail:
  assumes "\<not> ascii b" "rune_width (b # bs) \<noteq> 0"
  shows "list_all (\<lambda>c. \<not> ascii c) (take (rune_width (b # bs) - 1) bs)"
proof -
  let ?lo3 = "if in_range b 0xE0 0xE0 then 0xA0 else 0x80 :: nat"
  let ?hi3 = "if in_range b 0xED 0xED then 0x9F else 0xBF :: nat"
  let ?lo4 = "if in_range b 0xF0 0xF0 then 0x90 else 0x80 :: nat"
  let ?hi4 = "if in_range b 0xF4 0xF4 then 0x8F else 0xBF :: nat"
  have lo: "128 \<le> ?lo3" "128 \<le> ?lo4" by simp_all
  from assms(1) have na: "\<not> in_range b 0x00 0x7F" by (simp add: ascii_def)
  show ?thesis
  proof (cases "in_range b 0xC2 0xDF")
    case True
    with na assms(2) have "continues (Suc 0) 0x80 0xBF bs" "rune_width (b # bs) = 2"
      by (simp_all add: rune_width_def split: if_splits)
    with continues_nonascii [of "Suc 0" "0x80" "0xBF" bs] show ?thesis by simp
  next
    case two: False
    show ?thesis
    proof (cases "in_range b 0xE0 0xEF")
      case True
      with na two assms(2) have "continues (Suc (Suc 0)) ?lo3 ?hi3 bs" "rune_width (b # bs) = 3"
        by (simp_all add: rune_width_def split: if_splits)
      with continues_nonascii [of "Suc (Suc 0)" ?lo3 ?hi3 bs] lo(1) show ?thesis
        by (simp add: numeral_2_eq_2)
    next
      case three: False
      with na two assms(2)
      have "continues (Suc (Suc (Suc 0))) ?lo4 ?hi4 bs" "rune_width (b # bs) = 4"
        by (simp_all add: rune_width_def split: if_splits)
      with continues_nonascii [of "Suc (Suc (Suc 0))" ?lo4 ?hi4 bs] lo(2) show ?thesis
        by (simp add: numeral_3_eq_3)
    qed
  qed
qed

lemma replacement_nonascii: "replacement \<noteq> [] \<and> list_all (\<lambda>c. \<not> ascii c) replacement"
  by (simp add: replacement_def ascii_def in_range_def)

lemma expands_coerce:
  "list_all (\<lambda>c. \<not> ascii c) (take k s) \<Longrightarrow> expands s (coerce_utf8 k s)"
proof (induction k s rule: coerce_utf8.induct)
  case (1 k)
  show ?case by (simp add: expands.nil)
next
  case (2 k b bs)
  then have "\<not> ascii b" "expands bs (coerce_utf8 k bs)" by simp_all
  then have "expands (b # bs) ([b] @ coerce_utf8 k bs)" by (intro expands.swap) simp_all
  then show ?case by simp
next
  case (3 b bs)
  show ?case
  proof (cases "rune_width (b # bs) = 0")
    case True
    then have na: "\<not> ascii b" using rune_width_ascii [of b bs] by auto
    from 3(1) [OF True] have "expands bs (coerce_utf8 0 bs)" by simp
    with na replacement_nonascii have "expands (b # bs) (replacement @ coerce_utf8 0 bs)"
      by (intro expands.swap) simp_all
    with True show ?thesis by simp
  next
    case False
    show ?thesis
    proof (cases "ascii b")
      case True
      then have w: "rune_width (b # bs) = 1" by (rule rune_width_ascii)
      from 3(2) [OF False] w have "expands bs (coerce_utf8 0 bs)" by simp
      with True w show ?thesis by (simp add: expands.keep)
    next
      case na: False
      from rune_width_tail [OF na False] 3(2) [OF False]
      have "expands bs (coerce_utf8 (rune_width (b # bs) - 1) bs)" by simp
      with na have "expands (b # bs) ([b] @ coerce_utf8 (rune_width (b # bs) - 1) bs)"
        by (intro expands.swap) simp_all
      with False show ?thesis by simp
    qed
  qed
qed

lemma expands_json: "expands s (json_string s)"
  using expands_coerce [of 0 s] by (simp add: json_string_def)

lemma expands_empty: "expands s t \<Longrightarrow> (t = [] \<longleftrightarrow> s = [])"
  by (induction rule: expands.induct) simp_all

lemma expands_HasPrefix:
  "expands s t \<Longrightarrow> list_all ascii p \<Longrightarrow> HasPrefix t p = HasPrefix s p"
proof (induction arbitrary: p rule: expands.induct)
  case nil
  show ?case by simp
next
  case (keep b s t)
  then show ?case by (cases p) simp_all
next
  case (swap b chunk s t)
  show ?case
  proof (cases p)
    case Nil
    then show ?thesis by simp
  next
    case (Cons c cs)
    with swap.prems have c: "ascii c" by simp
    from swap.hyps(2) obtain d ds where chunk: "chunk = d # ds" by (cases chunk) auto
    with swap.hyps(3) have "\<not> ascii d" by simp
    with c have "d \<noteq> c" by auto
    moreover from c swap.hyps(1) have "b \<noteq> c" by auto
    ultimately show ?thesis using Cons chunk by simp
  qed
qed

lemma Contains_Cons: "Contains (x # xs) p \<longleftrightarrow> HasPrefix (x # xs) p \<or> Contains xs p"
  by (auto simp: Contains_def split: option.splits)

lemma Contains_Nil: "Contains [] p \<longleftrightarrow> p = []"
  by (simp add: Contains_def)

lemma Contains_nonascii_chunk:
  assumes "list_all (\<lambda>c. \<not> ascii c) chunk" "p = c # cs" "ascii c"
  shows "Contains (chunk @ t) p = Contains t p"
  using assms(1)
proof (induction chunk)
  case Nil
  show ?case by simp
next
  case (Cons d ds)
  then have "d \<noteq> c" using assms(3) by auto
  with Cons assms(2) show ?case by (simp add: Contains_Cons)
qed

lemma expands_Contains:
  "expands s t \<Longrightarrow> list_all ascii p \<Longrightarrow> p \<noteq> [] \<Longrightarrow> Contains t p = Contains s p"
proof (induction rule: expands.induct)
  case nil
  show ?case by simp
next
  case (keep b s t)
  from keep.IH keep.prems have "Contains t p = Contains s p" by simp
  with expands_HasPrefix [OF expands.keep [OF keep.hyps(1,2)] keep.prems(1)]
  show ?case by (simp only: Contains_Cons)
next
  case (swap b chunk s t)
  from swap.prems obtain c cs where p: "p = c # cs" "ascii c" by (cases p) auto
  from p swap.hyps(1) have "b \<noteq> c" by auto
  with p have "Contains (b # s) p = Contains s p" by (simp add: Contains_Cons)
  moreover have "Contains (chunk @ t) p = Contains t p"
    by (rule Contains_nonascii_chunk [OF swap.hyps(3) p])
  ultimately show ?case using swap.IH swap.prems by simp
qed

lemma isValidCrumb_json: "isValidCrumb (json_string c) = isValidCrumb c"
proof -
  have a: "list_all ascii ''<html>''" "list_all ascii ''<!DOCTYPE''"
    "list_all ascii ''Too Many Requests''" "list_all ascii ''Yahoo''"
    by (simp_all add: ascii_def in_range_def)
  note e = expands_json [of c]
  show ?thesis
    unfolding isValidCrumb_def
    using expands_empty [OF e] expands_Contains [OF e a(1)] expands_Contains [OF e a(2)]
      expands_Contains [OF e a(3)] expands_Contains [OF e a(4)]
    by simp
qed

subsection \<open>Acquisition\<close>

lemma cred_frame_refl: "cred_frame w w"
  by (simp add: cred_frame_def)

lemma cred_frame_trans: "cred_frame w w1 \<Longrightarrow> cred_frame w1 w2 \<Longrightarrow> cred_frame w w2"
  by (auto simp: cred_frame_def)

lemma cred_frame_cookie: "cred_frame w w1 \<Longrightarrow> cred_frame w (w1\<lparr>cookie := v\<rparr>)"
  by (simp add: cred_frame_def)

lemma client_Do_cred_frame: "client_Do_cred E req w = (r, w') \<Longrightarrow> cred_frame w w'"
  by (auto simp: cred_frame_def client_Do_cred_def)

lemma getCookieBasicInternal_frame: "getCookieBasicInternal E w = (r, w') \<Longrightarrow> cred_frame w w'"
  by (auto simp: getCookieBasicInternal_def Let_def cred_frame_refl
      split: option.splits sum.splits prod.splits
      dest!: client_Do_cred_frame intro: cred_frame_cookie)

lemma get_crumb_frame: "get_crumb url msg E w = (r, w') \<Longrightarrow> cred_frame w w'"
  by (auto simp: get_crumb_def Let_def cred_frame_refl
      split: option.splits sum.splits prod.splits if_splits dest!: client_Do_cred_frame)

lemma get_crumb_result:
  "get_crumb url msg E w = (Inr c, w') \<Longrightarrow>
   c \<noteq> [] \<and> \<not> Contains c ''<html>'' \<and> \<not> Contains c ''Too Many Requests''"
  by (auto simp: get_crumb_def Let_def split: option.splits sum.splits prod.splits if_splits)

lemma send_unread_frame: "send_unread E req w = (r, w') \<Longrightarrow> cred_frame w w'"
  by (auto simp: send_unread_def cred_frame_refl
      split: option.splits sum.splits prod.splits dest!: client_Do_cred_frame)

lemma getCookieCSRFInternal_frame: "getCookieCSRFInternal E w = (r, w') \<Longrightarrow> cred_frame w w'"
  by (auto simp: getCookieCSRFInternal_def Let_def cred_frame_refl
      split: option.splits sum.splits prod.splits if_splits
      dest!: client_Do_cred_frame send_unread_frame
      intro: cred_frame_cookie cred_frame_trans)

lemma getCookieAndCrumbBasicInternal_frame:
  "getCookieAndCrumbBasicInternal E w = (r, w') \<Longrightarrow> cred_frame w w'"
  by (auto simp: getCookieAndCrumbBasicInternal_def getCrumbBasicInternal_def
      split: prod.splits option.splits
      dest!: getCookieBasicInternal_frame get_crumb_frame intro: cred_frame_trans)

lemma getCookieAndCrumbCSRFInternal_frame:
  "getCookieAndCrumbCSRFInternal E w = (r, w') \<Longrightarrow> cred_frame w w'"
  by (auto simp: getCookieAndCrumbCSRFInternal_def getCrumbCSRFInternal_def
      split: prod.splits option.splits
      dest!: getCookieCSRFInternal_frame get_crumb_frame intro: cred_frame_trans)

lemma getCookieAndCrumbBasicInternal_result:
  "getCookieAndCrumbBasicInternal E w = (Inr c, w') \<Longrightarrow>
   c \<noteq> [] \<and> \<not> Contains c ''<html>'' \<and> \<not> Contains c ''Too Many Requests''"
  by (auto simp: getCookieAndCrumbBasicInternal_def getCrumbBasicInternal_def
      split: prod.splits option.splits dest: get_crumb_result)

lemma getCookieAndCrumbCSRFInternal_result:
  "getCookieAndCrumbCSRFInternal E w = (Inr c, w') \<Longrightarrow>
   c \<noteq> [] \<and> \<not> Contains c ''<html>'' \<and> \<not> Contains c ''Too Many Requests''"
  by (auto simp: getCookieAndCrumbCSRFInternal_def getCrumbCSRFInternal_def
      split: prod.splits option.splits dest: get_crumb_result)

lemma acquire_frame: "acquire s E w = (r, w') \<Longrightarrow> cred_frame w w'"
  by (auto simp: acquire_def split: if_splits
      dest: getCookieAndCrumbBasicInternal_frame getCookieAndCrumbCSRFInternal_frame)

lemma acquire_result:
  "acquire s E w = (Inr c, w') \<Longrightarrow>
   c \<noteq> [] \<and> \<not> Contains c ''<html>'' \<and> \<not> Contains c ''Too Many Requests''"
  by (auto simp: acquire_def split: if_splits
      dest: getCookieAndCrumbBasicInternal_result getCookieAndCrumbCSRFInternal_result)

lemma getCookieAndCrumb_first_ok:
  assumes "crumb w = []" "acquire (cookieStrategy w) E w = (Inr c, w1)"
  shows "getCookieAndCrumb E w = validate_and_save E (Inr c, w1)"
  using assms
  by (auto simp: getCookieAndCrumb_def acquire_def validate_and_save_def Let_def split: if_splits)

lemma getCookieAndCrumb_fallback:
  assumes "crumb w = []" "acquire (cookieStrategy w) E w = (Inl err, w1)"
  shows "getCookieAndCrumb E w =
     validate_and_save E
       (acquire (other_strategy (cookieStrategy w)) E
          (w1\<lparr>cookieStrategy := other_strategy (cookieStrategy w)\<rparr>))"
  using assms
  by (auto simp: getCookieAndCrumb_def acquire_def other_strategy_def validate_and_save_def Let_def
      split: if_splits prod.splits sum.splits)

lemma validate_and_save_state:
  assumes "validate_and_save E (r, v) = (res, w')"
  shows "(res \<noteq> Inr (crumb w') \<longrightarrow> w' = v)
         \<and> cookieStrategy w' = cookieStrategy v \<and> trace w' = trace v \<and> api_calls w' = api_calls v
         \<and> now w' = now v \<and> cacheDir w' = cacheDir v
         \<and> (w' = v \<and> (\<exists>e. res = Inl e)
           \<or> isValidCrumb (crumb w') \<and> res = Inr (crumb w') \<and> r = res
              \<and> (cache_file w' = cache_file v
                 \<or> (\<exists>k. cache_file w' = Some (Json k) \<and> Crumb k = json_string (crumb w'))))"
  using assms
  by (auto simp: validate_and_save_def saveCookieCache_def Let_def
      split: sum.splits if_splits option.splits)

lemma getCookieAndCrumb_state:
  assumes "getCookieAndCrumb E w = (res, w')"
  shows "(crumb w' = crumb w \<and> cache_file w' = cache_file w \<and> (crumb w = [] \<longrightarrow> (\<exists>e. res = Inl e)))
       \<or> (isValidCrumb (crumb w') \<and> res = Inr (crumb w')
          \<and> (cache_file w' = cache_file w
             \<or> (\<exists>k. cache_file w' = Some (Json k) \<and> Crumb k = json_string (crumb w'))))"
proof (cases "crumb w = []")
  case False
  with assms show ?thesis by (simp add: getCookieAndCrumb_def)
next
  case True
  obtain r1 w1 where a1: "acquire (cookieStrategy w) E w = (r1, w1)"
    by (cases "acquire (cookieStrategy w) E w")
  note f1 = acquire_frame [OF a1]
  show ?thesis
  proof (cases r1)
    case (Inr c)
    with a1 True assms have "validate_and_save E (Inr c, w1) = (res, w')"
      by (simp add: getCookieAndCrumb_first_ok)
    from validate_and_save_state [OF this] f1 True show ?thesis
      by (auto simp: cred_frame_def)
  next
    case (Inl err)
    let ?o = "other_strategy (cookieStrategy w)"
    obtain r2 w2 where a2: "acquire ?o E (w1\<lparr>cookieStrategy := ?o\<rparr>) = (r2, w2)"
      by (cases "acquire ?o E (w1\<lparr>cookieStrategy := ?o\<rparr>)")
    note f2 = acquire_frame [OF a2]
    from Inl a1 a2 True assms have "validate_and_save E (r2, w2) = (res, w')"
      by (simp add: getCookieAndCrumb_fallback)
    from validate_and_save_state [OF this] f1 f2 True show ?thesis
      by (auto simp: cred_frame_def)
  qed
qed

lemma validate_and_save_frame:
  assumes "validate_and_save E (r, v) = (res, w')"
  shows "cookieStrategy w' = cookieStrategy v \<and> trace w' = trace v \<and> cred_calls w' = cred_calls v
         \<and> api_calls w' = api_calls v \<and> now w' = now v
         \<and> (isl res \<longleftrightarrow> (case r of Inl e \<Rightarrow> True | Inr c \<Rightarrow> \<not> isValidCrumb c))"
  using assms
  by (auto simp: validate_and_save_def saveCookieCache_def Let_def
      split: sum.splits if_splits option.splits)

lemma sleeps_append: "sleeps (a @ b) = sleeps a @ sleeps b"
  by (induction a rule: sleeps.induct) simp_all

lemma cred_events:
  "list_all is_cred evs \<Longrightarrow> switch_count (a @ evs) = switch_count a \<and> sleeps (a @ evs) = sleeps a"
proof (induction evs arbitrary: a)
  case Nil
  then show ?case by simp
next
  case (Cons e evs)
  then have e: "is_cred e" and rest: "list_all is_cred evs" by simp_all
  from e obtain req where "e = CredSent req" by (cases e) simp_all
  then have "switch_count (a @ [e]) = switch_count a" "sleeps (a @ [e]) = sleeps a"
    by (simp_all add: switch_count_def sleeps_append)
  with Cons.IH [OF rest, of "a @ [e]"] show ?case by simp
qed

lemma getCookieAndCrumb_frame:
  assumes "getCookieAndCrumb E w = (res, w')"
  shows "api_calls w' = api_calls w \<and> now w' = now w
         \<and> (\<exists>evs. trace w' = trace w @ evs \<and> list_all is_cred evs)"
proof (cases "crumb w = []")
  case False
  with assms show ?thesis by (auto simp: getCookieAndCrumb_def)
next
  case True
  obtain r1 w1 where a1: "acquire (cookieStrategy w) E w = (r1, w1)"
    by (cases "acquire (cookieStrategy w) E w")
  note f1 = acquire_frame [OF a1]
  show ?thesis
  proof (cases r1)
    case (Inr c)
    with a1 True assms have "validate_and_save E (Inr c, w1) = (res, w')"
      by (simp add: getCookieAndCrumb_first_ok)
    from validate_and_save_frame [OF this] f1 show ?thesis
      by (auto simp: cred_frame_def)
  next
    case (Inl err)
    let ?o = "other_strategy (cookieStrategy w)"
    obtain r2 w2 where a2: "acquire ?o E (w1\<lparr>cookieStrategy := ?o\<rparr>) = (r2, w2)"
      by (cases "acquire ?o E (w1\<lparr>cookieStrategy := ?o\<rparr>)")
    note f2 = acquire_frame [OF a2]
    from Inl a1 a2 True assms have "validate_and_save E (r2, w2) = (res, w')"
      by (simp add: getCookieAndCrumb_fallback)
    from validate_and_save_frame [OF this] f1 f2 show ?thesis
      by (auto simp: cred_frame_def)
  qed
qed

lemma doRequest_frame:
  assumes "doRequest E method endpoint params body w = (r, w')"
  shows "switch_count (trace w') = switch_count (trace w) \<and> sleeps (trace w') = sleeps (trace w)
         \<and> now w' = now w \<and> api_calls w' \<le> Suc (api_calls w)"
proof -
  obtain res w1 where g: "getCookieAndCrumb E w = (res, w1)"
    by (cases "getCookieAndCrumb E w")
  from getCookieAndCrumb_frame [OF g] obtain evs
    where f: "api_calls w1 = api_calls w" "now w1 = now w" "trace w1 = trace w @ evs"
      "list_all is_cred evs" by blast
  from cred_events [OF f(4), of "trace w"] f(3)
  have t: "switch_count (trace w1) = switch_count (trace w)" "sleeps (trace w1) = sleeps (trace w)"
    by simp_all
  have "w' = w1 \<or> (\<exists>req. w' = w1\<lparr>api_calls := Suc (api_calls w1), trace := trace w1 @ [Sent req]\<rparr>)"
    using assms g
    by (auto simp: doRequest_def Let_def client_Do_api_def split: option.splits sum.splits)
  then show ?thesis using f t by (auto simp: switch_count_def sleeps_append)
qed

lemma doRequest_dispatch:
  assumes "\<forall>u. NewRequest_error E method u = None" and "\<forall>err. body \<noteq> Some (Inl err)"
  shows "\<exists>w'. doRequest E method endpoint params body w = (api_script E (api_calls w), w')
           \<and> api_calls w' = Suc (api_calls w)"
proof -
  obtain res w1 where g: "getCookieAndCrumb E w = (res, w1)"
    by (cases "getCookieAndCrumb E w")
  from getCookieAndCrumb_frame [OF g] have "api_calls w1 = api_calls w" by simp
  with g assms show ?thesis
    by (cases body) (auto simp: doRequest_def Let_def client_Do_api_def split: sum.splits)
qed



lemma switchCookieStrategy_frame:
  "switch_count (trace (switchCookieStrategy w)) = Suc (switch_count (trace w))
   \<and> api_calls (switchCookieStrategy w) = api_calls w
   \<and> sleeps (trace (switchCookieStrategy w)) = sleeps (trace w)"
  by (simp add: switchCookieStrategy_def Let_def switch_count_def sleeps_append)

lemma time_Sleep_frame:
  "switch_count (trace (time_Sleep d w)) = switch_count (trace w)
   \<and> api_calls (time_Sleep d w) = api_calls w
   \<and> sleeps (trace (time_Sleep d w)) = sleeps (trace w) @ [d]"
  by (simp add: time_Sleep_def switch_count_def sleeps_append)

text \<open>
  Claim C2.  A crumb that is empty, or contains \<open><html>\<close>, or contains
  \<open>Too Many Requests\<close> fails \<open>isValidCrumb\<close>.  And \<open>getCookieAndCrumb\<close>, in every
  environment and from every state, never stores such a value: if the crumb
  field holds it afterwards, it held it before the call; if the cache file holds
  it afterwards, the call did not write the file; and when no crumb was cached,
  the call does not return it (when an endpoint answers with it, the call
  returns an error or the crumb another strategy obtained).
\<close>

theorem invalid_crumb_never_stored:
  "c = [] \<or> Contains c ''<html>'' \<or> Contains c ''Too Many Requests'' \<Longrightarrow>
   \<not> isValidCrumb c
   \<and> (\<forall>E w res w'. getCookieAndCrumb E w = (res, w') \<longrightarrow>
        (crumb w' = c \<longrightarrow> crumb w = c)
        \<and> (\<forall>k. cache_file w' = Some (Json k) \<and> Crumb k = c \<longrightarrow> cache_file w' = cache_file w)
        \<and> (crumb w = [] \<longrightarrow> res \<noteq> Inr c))"
proof (intro conjI allI impI)
  assume bad: "c = [] \<or> Contains c ''<html>'' \<or> Contains c ''Too Many Requests''"
  then show inv: "\<not> isValidCrumb c" by (auto simp: isValidCrumb_def)
  fix E w res w'
  assume run: "getCookieAndCrumb E w = (res, w')"
  note st = getCookieAndCrumb_state [OF run]
  { assume "crumb w' = c" with st inv show "crumb w = c" by auto }
  { fix k assume "cache_file w' = Some (Json k) \<and> Crumb k = c"
    with st inv isValidCrumb_json [of "crumb w'"] show "cache_file w' = cache_file w" by auto }
  { assume "crumb w = []" with st inv show "res \<noteq> Inr c" by auto }
qed

text \<open>
  Claim C7, as amended.  With no crumb cached, \<open>getCookieAndCrumb\<close> first runs
  the strategy remembered in \<open>cookieStrategy\<close> (the consent flow for \<open>csrf\<close>, the
  basic flow otherwise).  When that returns a crumb, no other strategy is run
  (the trace and the count of credential requests are those of the first
  strategy alone), the remembered strategy stays, and an error is returned
  exactly when the crumb fails \<open>isValidCrumb\<close>.  When the first strategy fails,
  the remembered strategy is set to the other one, which is run once, and an
  error is returned exactly when this second run fails or its crumb fails
  \<open>isValidCrumb\<close>.
\<close>

theorem fallback_once:
  assumes "crumb w = []"
    and "acquire (cookieStrategy w) E w = (r1, w1)"
    and "acquire (other_strategy (cookieStrategy w)) E
           (w1\<lparr>cookieStrategy := other_strategy (cookieStrategy w)\<rparr>) = (r2, w2)"
    and "getCookieAndCrumb E w = (res, w')"
  shows "(case r1 of
            Inr c \<Rightarrow>
              trace w' = trace w1 \<and> cred_calls w' = cred_calls w1
              \<and> cookieStrategy w' = cookieStrategy w
              \<and> (isl res \<longleftrightarrow> \<not> isValidCrumb c)
          | Inl err \<Rightarrow>
              trace w' = trace w2 \<and> cred_calls w' = cred_calls w2
              \<and> cookieStrategy w' = other_strategy (cookieStrategy w)
              \<and> (isl res \<longleftrightarrow> (case r2 of Inl err2 \<Rightarrow> True | Inr c \<Rightarrow> \<not> isValidCrumb c)))"
proof (cases r1)
  case (Inr c)
  with assms have "validate_and_save E (Inr c, w1) = (res, w')"
    by (simp add: getCookieAndCrumb_first_ok)
  from validate_and_save_frame [OF this] acquire_frame [OF assms(2)] Inr show ?thesis
    by (simp add: cred_frame_def)
next
  case (Inl err)
  with assms have "validate_and_save E (r2, w2) = (res, w')"
    by (simp add: getCookieAndCrumb_fallback)
  from validate_and_save_frame [OF this] acquire_frame [OF assms(3)] Inl show ?thesis
    by (simp add: cred_frame_def)
qed

text \<open>
  Claim C8, as amended.  When the cache directory is set, the write succeeds
  and the crumb of the state passes \<open>isValidCrumb\<close>, then \<open>saveCookieCache\<close>
  followed by \<open>loadCookieCache\<close> on the same file, no later than 24 hours after
  the save, returns \<open>true\<close> and restores cookie, crumb and strategy as JSON
  carries them: equal to the saved ones where these are valid UTF-8, and with
  \<open>U+FFFD\<close> for every byte that is not part of a valid encoding otherwise.
  Later than 24 hours after the save, \<open>loadCookieCache\<close> returns \<open>false\<close> and
  leaves the state as it is.
\<close>

theorem cache_round_trip:
  assumes "cacheDir w \<noteq> []" and "WriteFile_error E = None" and "isValidCrumb (crumb w)"
    and "saveCookieCache E w = (err, w1)"
    and "cache_file w2 = cache_file w1" and "cacheDir w2 \<noteq> []"
  shows "err = None
     \<and> (now w2 \<le> now w + 24 * Hour \<longrightarrow>
          (\<exists>w3. loadCookieCache w2 = (True, w3)
                \<and> cookie w3 = json_string (cookie w) \<and> crumb w3 = json_string (crumb w)
                \<and> cookieStrategy w3 = json_string (cookieStrategy w)
                \<and> (ValidString (cookie w) \<longrightarrow> cookie w3 = cookie w)
                \<and> (ValidString (crumb w) \<longrightarrow> crumb w3 = crumb w)
                \<and> (ValidString (cookieStrategy w) \<longrightarrow> cookieStrategy w3 = cookieStrategy w)))
     \<and> (now w2 > now w + 24 * Hour \<longrightarrow> loadCookieCache w2 = (False, w2))"
proof -
  have v: "isValidCrumb (json_string (crumb w))"
    using assms(3) by (simp add: isValidCrumb_json)
  show ?thesis
    using assms v
    by (auto simp: saveCookieCache_def loadCookieCache_def Let_def ValidString_json)
qed

text \<open>
  Claim C10.  Whatever \<open>getCookieAndCrumb\<close> returns, \<open>doRequest\<close> goes on: provided
  the body can be marshalled and the request can be built, it sends one
  request and returns the transport's answer to it.  The URL of that request
  is the endpoint with the encoded parameters, followed by the \<open>crumb\<close>
  parameter if and only if a non-empty crumb was obtained; when the
  acquisition returned an error, the URL carries no crumb parameter.
\<close>

theorem doRequest_crumb_parameter:
  assumes "getCookieAndCrumb E w = (res, w1)"
    and "base = (if length params > 0 then endpoint @ ''?'' @ Values_Encode E params else endpoint)"
    and "c = (case res of Inl err \<Rightarrow> [] | Inr c' \<Rightarrow> c')"
    and "url = (if c = [] then base
                else if Contains base ''?'' then base @ ''&crumb='' @ QueryEscape E c
                else base @ ''?crumb='' @ QueryEscape E c)"
    and "\<forall>err. body \<noteq> Some (Inl err)"
    and "NewRequest_error E method url = None"
  shows "\<exists>req. doRequest E method endpoint params body w
           = (api_script E (api_calls w1),
              w1\<lparr>api_calls := Suc (api_calls w1), trace := trace w1 @ [Sent req]\<rparr>)
         \<and> Method req = method \<and> URL req = url
         \<and> (isl res \<longrightarrow> URL req = base)
         \<and> (URL req \<noteq> base \<longleftrightarrow> c \<noteq> [])"
proof -
  let ?body = "case body of Some (Inr jsonBody) \<Rightarrow> Some jsonBody | _ \<Rightarrow> None"
  let ?req = "setBrowserHeadersWithUA (new_request method url ?body) (userAgent w1)"
  have hdr: "Method (fold (\<lambda>h. Header_Set (fst h) (snd h)) hs r) = Method r
           \<and> URL (fold (\<lambda>h. Header_Set (fst h) (snd h)) hs r) = URL r
           \<and> ReqBody (fold (\<lambda>h. Header_Set (fst h) (snd h)) hs r) = ReqBody r" for hs r
    by (induction hs arbitrary: r) (simp_all add: Header_Set_def)
  have req: "Method ?req = method" "URL ?req = url"
    by (simp_all add: setBrowserHeadersWithUA_def Let_def hdr new_request_def Header_Set_def)
  have run: "doRequest E method endpoint params body w
           = (api_script E (api_calls w1),
              w1\<lparr>api_calls := Suc (api_calls w1), trace := trace w1 @ [Sent ?req]\<rparr>)"
    using assms
    by (cases body) (auto simp: doRequest_def Let_def client_Do_api_def split: sum.splits)
  have u1: "isl res \<longrightarrow> url = base" using assms(3,4) by (auto split: sum.splits)
  have u2: "url \<noteq> base \<longleftrightarrow> c \<noteq> []" using assms(4) by auto
  show ?thesis
    using u1 u2 by (intro exI [of _ ?req]) (simp only: run req simp_thms)
qed


text \<open>
  The consent branch of the loop, lines 373--380.  On a response that is not a
  429 and comes from a consent host, the loop clears crumb and cookie, sets the
  strategy to \<open>csrf\<close> and goes through \<open>attempt++\<close> to the test of the loop, with
  no call of \<open>time.Sleep\<close>.  On the last attempt that test fails, and what is
  returned is \<open>lastErr\<close>, which is \<open>nil\<close> unless an earlier attempt set it.
\<close>

lemma consent_redirect_step:
  assumes "attempt \<le> retries"
    and "doRequest E method endpoint params body w = (Inr resp, w1)"
    and "StatusCode resp \<noteq> 429"
    and "isConsentURL E (RequestURL resp)"
  shows "attempt_loop E retries method endpoint params body attempt lastErr w
         = attempt_loop E retries method endpoint params body (attempt + 1) lastErr
             (w1\<lparr>crumb := [], cookie := [], cookieStrategy := ''csrf''\<rparr>)"
  using assms by (subst attempt_loop.simps) (simp add: acceptConsent_def)

lemma consent_on_last_attempt:
  assumes "doRequest E method endpoint params body w = (Inr resp, w1)"
    and "StatusCode resp \<noteq> 429"
    and "isConsentURL E (RequestURL resp)"
  shows "attempt_loop E retries method endpoint params body retries lastErr w
         = ((None, lastErr), w1\<lparr>crumb := [], cookie := [], cookieStrategy := ''csrf''\<rparr>)"
proof -
  have "attempt_loop E retries method endpoint params body (retries + 1) lastErr v
          = ((None, lastErr), v)" for v
    by (subst attempt_loop.simps) simp
  with consent_redirect_step [OF order_refl assms, where lastErr = lastErr] show ?thesis by simp
qed

section \<open>The session manager on concrete inputs\<close>

lemmas cred_defs = getCookieAndCrumb_def getCookieAndCrumbBasicInternal_def
  getCookieAndCrumbCSRFInternal_def getCookieBasicInternal_def getCookieCSRFInternal_def
  getCrumbBasicInternal_def getCrumbCSRFInternal_def get_crumb_def send_unread_def
  client_Do_cred_def find_A3_def extractInputValue_def first_of_def Contains_def
  isValidCrumb_def saveCookieCache_def acquire_def other_strategy_def

lemmas example_defs = base_env_def init_world_def response_def consent_response_def
  simple_hostname_def simple_encode_def chart_url_def default_config_def

lemmas loop_defs = makeRequest_def doRequest_def client_Do_api_def switchCookieStrategy_def
  time_Sleep_def acceptConsent_def ResetCrumb_def isConsentURL_def IsTransientError_def
  HasSuffix_def

lemma html_run:
  "fst (getCookieAndCrumb env_html init_world) = Inl (Errorf ''failed to find csrfToken'')
   \<and> crumb (snd (getCookieAndCrumb env_html init_world)) = []
   \<and> cache_file (snd (getCookieAndCrumb env_html init_world)) = None"
  by (simp add: cred_defs env_html_def example_defs html_page_def Let_def)

theorem invalid_crumb_never_stored_witness:
  "Contains html_page ''<html>''
   \<and> \<not> isValidCrumb html_page
   \<and> fst (getCookieAndCrumb env_html init_world) = Inl (Errorf ''failed to find csrfToken'')
   \<and> crumb (snd (getCookieAndCrumb env_html init_world)) \<noteq> html_page
   \<and> cache_file (snd (getCookieAndCrumb env_html init_world)) = None"
proof -
  have bad: "Contains html_page ''<html>''" by (simp add: html_page_def Contains_def)
  then have "html_page = [] \<or> Contains html_page ''<html>'' \<or> Contains html_page ''Too Many Requests''"
    by simp
  note th = invalid_crumb_never_stored [OF this]
  have run: "getCookieAndCrumb env_html init_world
      = (fst (getCookieAndCrumb env_html init_world), snd (getCookieAndCrumb env_html init_world))"
    by simp
  from th [THEN conjunct2, rule_format, OF run]
  have "crumb (snd (getCookieAndCrumb env_html init_world)) = html_page \<longrightarrow> crumb init_world = html_page"
    by blast
  moreover have "crumb init_world \<noteq> html_page" by (simp add: init_world_def html_page_def)
  ultimately show ?thesis using bad th [THEN conjunct1] html_run by auto
qed

lemma fallback_first: "fst (acquire ''basic'' env_fallback init_world) = Inl YFRateLimitError"
  by (simp add: cred_defs env_fallback_def example_defs Let_def)

lemma fallback_run:
  "fst (getCookieAndCrumb env_fallback init_world) = Inr ''abc123''
   \<and> cookieStrategy (snd (getCookieAndCrumb env_fallback init_world)) = ''csrf''
   \<and> cred_calls (snd (getCookieAndCrumb env_fallback init_world)) = 6"
  by (simp add: cred_defs env_fallback_def example_defs consent_page_def Let_def)

theorem fallback_once_witness:
  "crumb init_world = []
   \<and> cookieStrategy init_world = ''basic''
   \<and> fst (acquire ''basic'' env_fallback init_world) = Inl YFRateLimitError
   \<and> fst (getCookieAndCrumb env_fallback init_world) = Inr ''abc123''
   \<and> cookieStrategy (snd (getCookieAndCrumb env_fallback init_world)) = ''csrf''
   \<and> cred_calls (snd (getCookieAndCrumb env_fallback init_world))
       = cred_calls (snd (acquire ''csrf'' env_fallback
           ((snd (acquire ''basic'' env_fallback init_world))\<lparr>cookieStrategy := ''csrf''\<rparr>)))
   \<and> cred_calls (snd (getCookieAndCrumb env_fallback init_world)) = 6"
proof -
  have w: "crumb init_world = []" "cookieStrategy init_world = ''basic''"
    by (simp_all add: init_world_def)
  have o: "other_strategy ''basic'' = ''csrf''" by (simp add: other_strategy_def)
  let ?a1 = "acquire ''basic'' env_fallback init_world"
  let ?a2 = "acquire ''csrf'' env_fallback ((snd ?a1)\<lparr>cookieStrategy := ''csrf''\<rparr>)"
  let ?g = "getCookieAndCrumb env_fallback init_world"
  have "(case fst ?a1 of
            Inr c \<Rightarrow>
              trace (snd ?g) = trace (snd ?a1) \<and> cred_calls (snd ?g) = cred_calls (snd ?a1)
              \<and> cookieStrategy (snd ?g) = cookieStrategy init_world
              \<and> (isl (fst ?g) \<longleftrightarrow> \<not> isValidCrumb c)
          | Inl err \<Rightarrow>
              trace (snd ?g) = trace (snd ?a2) \<and> cred_calls (snd ?g) = cred_calls (snd ?a2)
              \<and> cookieStrategy (snd ?g) = other_strategy (cookieStrategy init_world)
              \<and> (isl (fst ?g) \<longleftrightarrow> (case fst ?a2 of Inl err2 \<Rightarrow> True | Inr c \<Rightarrow> \<not> isValidCrumb c)))"
    by (rule fallback_once [of init_world env_fallback "fst ?a1" "snd ?a1" "fst ?a2" "snd ?a2"
          "fst ?g" "snd ?g"]) (simp_all add: w o)
  then show ?thesis using w fallback_first fallback_run by (simp add: o)
qed

text \<open>
  Claim C7 as it is worded fails: an error is also returned when the first
  strategy returns a crumb that \<open>isValidCrumb\<close> rejects, and then no fallback is
  attempted.  Here the basic strategy accepts the text the crumb endpoint
  answers (it is not empty and has neither \<open><html>\<close> nor \<open>Too Many Requests\<close> in
  it), \<open>isValidCrumb\<close> rejects it for the word \<open>Yahoo\<close>, and the call returns an
  error after the two requests of the basic strategy, the strategy unchanged.
\<close>

theorem fallback_once_counterexample:
  "crumb init_world = []
   \<and> fst (acquire (cookieStrategy init_world) env_yahoo init_world) = Inr ''Yahoo is down''
   \<and> fst (getCookieAndCrumb env_yahoo init_world)
       = Inl (Errorf ''invalid crumb received: Yahoo is down'')
   \<and> cred_calls (snd (getCookieAndCrumb env_yahoo init_world)) = 2
   \<and> cookieStrategy (snd (getCookieAndCrumb env_yahoo init_world)) = ''basic''"
  by (simp add: cred_defs env_yahoo_def example_defs Let_def)

lemmas json_defs = json_string_def rune_width_def in_range_def replacement_def ValidString_def

theorem cache_round_trip_witness:
  "cacheDir with_credentials \<noteq> [] \<and> isValidCrumb (crumb with_credentials)
   \<and> ValidString (cookie with_credentials) \<and> ValidString (crumb with_credentials)
   \<and> ValidString (cookieStrategy with_credentials)
   \<and> fst (saveCookieCache base_env with_credentials) = None
   \<and> (\<exists>w3. loadCookieCache
              (init_world\<lparr>cache_file := cache_file (snd (saveCookieCache base_env with_credentials)),
                          now := 1000 + 24 * Hour\<rparr>) = (True, w3)
            \<and> cookie w3 = ''d=AQAB'' \<and> crumb w3 = ''abc123'' \<and> cookieStrategy w3 = ''csrf'')
   \<and> fst (loadCookieCache
              (init_world\<lparr>cache_file := cache_file (snd (saveCookieCache base_env with_credentials)),
                          now := 1001 + 24 * Hour\<rparr>)) = False"
proof -
  let ?s = "saveCookieCache base_env with_credentials"
  let ?w2 = "init_world\<lparr>cache_file := cache_file (snd ?s), now := 1000 + 24 * Hour\<rparr>"
  let ?w2' = "init_world\<lparr>cache_file := cache_file (snd ?s), now := 1001 + 24 * Hour\<rparr>"
  have h: "cacheDir with_credentials \<noteq> []" "WriteFile_error base_env = None"
    "isValidCrumb (crumb with_credentials)" "?s = (fst ?s, snd ?s)"
    by (simp_all add: with_credentials_def init_world_def base_env_def isValidCrumb_def Contains_def)
  have d: "cacheDir ?w2 \<noteq> []" "cacheDir ?w2' \<noteq> []" by (simp_all add: init_world_def)
  have c: "cookie with_credentials = ''d=AQAB''" "crumb with_credentials = ''abc123''"
    "cookieStrategy with_credentials = ''csrf''" "now with_credentials = 1000"
    by (simp_all add: with_credentials_def)
  have u: "ValidString ''d=AQAB''" "ValidString ''abc123''" "ValidString ''csrf''"
    by (simp_all add: json_defs)
  from cache_round_trip [OF h(1) h(2) h(3) h(4), of ?w2, OF _ d(1)]
    cache_round_trip [OF h(1) h(2) h(3) h(4), of ?w2', OF _ d(2)] h(1) h(3) u
  show ?thesis by (auto simp add: c)
qed

text \<open>
  Claim C8 as it is worded fails: not every record of credentials comes back.
  \<open>loadCookieCache\<close> rejects a cached crumb that fails \<open>isValidCrumb\<close>, whatever
  its age; with no cache directory nothing is saved or loaded; and a crumb
  with a byte that is not valid UTF-8 comes back with \<open>U+FFFD\<close> in its place.
\<close>

theorem cache_round_trip_counterexample:
  "cacheDir with_odd_crumb \<noteq> []
   \<and> fst (saveCookieCache base_env with_odd_crumb) = None
   \<and> cache_file (snd (saveCookieCache base_env with_odd_crumb))
       = Some (Json \<lparr>Cookie = ''d=AQAB'', Crumb = ''mYahooX1'', Expiry = 1000 + 24 * Hour,
                      Strategy = ''csrf''\<rparr>)
   \<and> loadCookieCache (init_world\<lparr>cache_file := cache_file (snd (saveCookieCache base_env with_odd_crumb)),
                                   now := 1000\<rparr>)
       = (False, init_world\<lparr>cache_file := cache_file (snd (saveCookieCache base_env with_odd_crumb)),
                             now := 1000\<rparr>)
   \<and> fst (loadCookieCache (snd (saveCookieCache base_env (with_credentials\<lparr>cacheDir := []\<rparr>)))) = False
   \<and> isValidCrumb (crumb with_bad_byte)
   \<and> loadCookieCache (snd (saveCookieCache base_env with_bad_byte))
       = (True, (snd (saveCookieCache base_env with_bad_byte))
                  \<lparr>crumb := [CHR ''a'', CHR ''b'', CHR 0xEF, CHR 0xBF, CHR 0xBD]\<rparr>)
   \<and> crumb with_bad_byte \<noteq> [CHR ''a'', CHR ''b'', CHR 0xEF, CHR 0xBF, CHR 0xBD]"
  by (simp add: with_odd_crumb_def with_bad_byte_def with_credentials_def init_world_def base_env_def
      saveCookieCache_def loadCookieCache_def isValidCrumb_def Contains_def Let_def json_defs
      Hour_def)

lemma refused_acquisition:
  "fst (getCookieAndCrumb base_env init_world) = Inl (External ''connection refused'')
   \<and> api_calls (snd (getCookieAndCrumb base_env init_world)) = 0"
  by (simp add: cred_defs example_defs Let_def)

theorem doRequest_crumb_parameter_witness:
  "fst (getCookieAndCrumb base_env init_world) = Inl (External ''connection refused'')
   \<and> (\<exists>req. doRequest base_env ''GET'' chart_url [(''range'', ''1d'')] None init_world
          = (Inl (External ''connection refused''),
             (snd (getCookieAndCrumb base_env init_world))
               \<lparr>api_calls := Suc 0,
                trace := trace (snd (getCookieAndCrumb base_env init_world)) @ [Sent req]\<rparr>)
        \<and> URL req = chart_url @ ''?range=1d'')
   \<and> (\<exists>req. doRequest base_env ''GET'' chart_url [(''range'', ''1d'')] None with_credentials
          = (Inl (External ''connection refused''),
             with_credentials\<lparr>api_calls := Suc 0, trace := [Sent req]\<rparr>)
        \<and> URL req = chart_url @ ''?range=1d&crumb=abc123'')"
proof -
  let ?g = "getCookieAndCrumb base_env init_world"
  have g: "?g = (fst ?g, snd ?g)" by simp
  have b: "\<forall>err. (None :: (error + string) option) \<noteq> Some (Inl err)" by simp
  have n: "NewRequest_error base_env m u = None" for m u by (simp add: base_env_def)
  have g2: "getCookieAndCrumb base_env with_credentials = (Inr ''abc123'', with_credentials)"
    by (simp add: getCookieAndCrumb_def with_credentials_def)
  have e: "Values_Encode base_env [(''range'', ''1d'')] = ''range=1d''" "QueryEscape base_env s = s" for s
    by (simp_all add: base_env_def simple_encode_def)
  have q: "Contains (chart_url @ ''?range=1d'') ''?''"
    by (simp add: chart_url_def Contains_def)
  have a: "api_script base_env k = Inl (External ''connection refused'')" for k
    by (simp add: base_env_def)
  have t: "api_calls with_credentials = 0" "trace with_credentials = []"
    by (simp_all add: with_credentials_def init_world_def)
  from doRequest_crumb_parameter [OF g refl refl refl b n, of "''GET''" chart_url "[(''range'', ''1d'')]"]
    doRequest_crumb_parameter [OF g2 refl refl refl b n, of "''GET''" chart_url "[(''range'', ''1d'')]"]
    refused_acquisition
  show ?thesis by (simp add: e q a t) blast
qed



text \<open>
  Claim C4 fails on the code.  The \<open>continue\<close> of the consent branch goes through
  \<open>attempt++\<close>, so the iteration is counted, and the branch has no test of the
  budget of its own.  With one retry configured and a consent redirect on both
  attempts, \<open>makeRequest\<close> leaves the loop after two requests and returns neither
  a response nor an error; the third request, which would have been answered
  with 200, is never sent.  Crumb and cookie are cleared, the strategy is
  \<open>csrf\<close>, and \<open>time.Sleep\<close> was not called.
\<close>

theorem consent_exhausts_budget:
  "fst (makeRequest env_consent one_retry ''GET'' chart_url [] None init_world) = (None, None)
   \<and> api_calls (snd (makeRequest env_consent one_retry ''GET'' chart_url [] None init_world)) = 2
   \<and> api_script env_consent 2 = Inr (response 200 ''{}'')
   \<and> crumb (snd (makeRequest env_consent one_retry ''GET'' chart_url [] None init_world)) = []
   \<and> cookie (snd (makeRequest env_consent one_retry ''GET'' chart_url [] None init_world)) = []
   \<and> cookieStrategy (snd (makeRequest env_consent one_retry ''GET'' chart_url [] None init_world))
       = ''csrf''
   \<and> sleeps (trace (snd (makeRequest env_consent one_retry ''GET'' chart_url [] None init_world))) = []"
  by (simp add: attempt_loop.simps loop_defs cred_defs env_consent_def one_retry_def example_defs
      sleeps_append Let_def)

subsection \<open>The backoff\<close>

lemma pow2_Duration_sint:
  assumes "0 \<le> k" "k \<le> 33"
  shows "sint (pow2_Duration E k * Second) = 2 ^ nat k * 1000000000"
proof -
  have "nat k \<le> 33" using assms by simp
  then have "(2 :: int) ^ nat k \<le> 2 ^ 33" by (intro power_increasing) simp_all
  then have b: "(2 :: int) ^ nat k * 1000000000 < 2 ^ 63" by simp
  have nn: "(0 :: int) \<le> 2 ^ nat k * 1000000000" by simp
  have "pow2_Duration E k * Second = (word_of_int (2 ^ nat k * 1000000000) :: 64 word)"
    using assms by (simp add: pow2_Duration_def Second_def)
  then have "sint (pow2_Duration E k * Second) = signed_take_bit 63 ((2 :: int) ^ nat k * 1000000000)"
    by (simp only: sint_sbintrunc') simp
  also have "\<dots> = 2 ^ nat k * 1000000000"
  proof (rule signed_take_bit_int_eq_self [OF _ b])
    have "- (2 ^ 63) \<le> (0 :: int)" by simp
    then show "- (2 ^ 63) \<le> (2 :: int) ^ nat k * 1000000000" using nn by (rule order_trans)
  qed
  finally show ?thesis .
qed

lemma backoff_in_range:
  assumes "0 \<le> k" "k \<le> 33"
  shows "sint (backoff E k) = min (2 ^ nat k) 30 * 1000000000"
proof -
  have s: "sint (30 * Second :: 64 word) = 30000000000" by (simp add: Second_def)
  show ?thesis
    using pow2_Duration_sint [OF assms, of E] s
    by (auto simp: backoff_def Let_def word_sless_alt min_def)
qed

lemma rate_limited_sleeps:
  assumes limited: "\<forall>k. \<exists>r. api_script E k = Inr r \<and> StatusCode r = 429"
    and build: "\<forall>u. NewRequest_error E method u = None" "\<forall>err. body \<noteq> Some (Inl err)"
  shows "0 \<le> attempt \<Longrightarrow> attempt \<le> retries \<Longrightarrow>
         sleeps (trace (snd (attempt_loop E retries method endpoint params body attempt lastErr w)))
           = sleeps (trace w) @ map (\<lambda>k. backoff E (int k)) [nat attempt ..< nat retries]"
proof (induction "nat (retries - attempt)" arbitrary: attempt lastErr w)
  case 0
  then have eq: "attempt = retries" by simp
  obtain w1 where d: "doRequest E method endpoint params body w = (api_script E (api_calls w), w1)"
    using doRequest_dispatch [OF build, of endpoint params w] by blast
  from limited obtain r where r: "api_script E (api_calls w) = Inr r" "StatusCode r = 429" by blast
  have "attempt_loop E retries method endpoint params body attempt lastErr w
          = ((None, Some YFRateLimitError), switchCookieStrategy w1)"
    using d r eq by (subst attempt_loop.simps) (simp add: Let_def)
  with doRequest_frame [OF d] switchCookieStrategy_frame [of w1] eq show ?case by simp
next
  case (Suc n)
  then have lt: "attempt < retries" by simp
  obtain w1 where d: "doRequest E method endpoint params body w = (api_script E (api_calls w), w1)"
    using doRequest_dispatch [OF build, of endpoint params w] by blast
  from limited obtain r where r: "api_script E (api_calls w) = Inr r" "StatusCode r = 429" by blast
  let ?w2 = "time_Sleep (backoff E attempt) (switchCookieStrategy w1)"
  have step: "attempt_loop E retries method endpoint params body attempt lastErr w
          = attempt_loop E retries method endpoint params body (attempt + 1)
              (Some YFRateLimitError) ?w2"
    using d r lt by (subst attempt_loop.simps) (simp add: Let_def)
  have w2: "sleeps (trace ?w2) = sleeps (trace w) @ [backoff E attempt]"
    using doRequest_frame [OF d] switchCookieStrategy_frame [of w1]
      time_Sleep_frame [of "backoff E attempt" "switchCookieStrategy w1"] by simp
  have n: "n = nat (retries - (attempt + 1))" using Suc.hyps(2) by simp
  have "0 \<le> attempt + 1" "attempt + 1 \<le> retries" using Suc.prems lt by simp_all
  from Suc.hyps(1) [OF n this, of "Some YFRateLimitError" ?w2]
  have "sleeps (trace (snd (attempt_loop E retries method endpoint params body (attempt + 1)
            (Some YFRateLimitError) ?w2)))
        = sleeps (trace w) @ [backoff E attempt]
          @ map (\<lambda>k. backoff E (int k)) [nat (attempt + 1) ..< nat retries]"
    by (simp add: w2)
  moreover have "[nat attempt ..< nat retries] = nat attempt # [nat (attempt + 1) ..< nat retries]"
    using Suc.prems lt by (simp add: upt_conv_Cons nat_add_distrib)
  moreover have "int (nat attempt) = attempt" using Suc.prems by simp
  ultimately show ?case by (simp add: step)
qed

lemma attempt_budget:
  "api_calls (snd (attempt_loop E retries method endpoint params body attempt lastErr w))
     \<le> api_calls w + nat (retries + 1 - attempt)"
proof (induction "nat (retries + 1 - attempt)" arbitrary: attempt lastErr w)
  case 0
  then have "\<not> attempt \<le> retries" by simp
  then show ?case by (subst attempt_loop.simps) simp
next
  case (Suc n)
  then have le: "attempt \<le> retries" by simp
  have n: "n = nat (retries + 1 - (attempt + 1))" using Suc.hyps(2) by simp
  note IH = Suc.hyps(1) [OF n]
  obtain r w1 where d: "doRequest E method endpoint params body w = (r, w1)"
    by (cases "doRequest E method endpoint params body w")
  from doRequest_frame [OF d] have a: "api_calls w1 \<le> Suc (api_calls w)" by simp
  have b: "api_calls (time_Sleep x v) = api_calls v" "api_calls (switchCookieStrategy v) = api_calls v"
    "api_calls (ResetCrumb v) = api_calls v" for x v
    by (simp_all add: time_Sleep_def switchCookieStrategy_def Let_def ResetCrumb_def)
  have s: "Suc (api_calls w) + n = api_calls w + nat (retries + 1 - attempt)"
    using Suc.hyps(2) by simp
  show ?case
  proof (cases r)
    case (Inl err)
    show ?thesis
      using d Inl le a s IH [of "Some err" "time_Sleep (backoff E attempt) w1"]
      by (subst attempt_loop.simps) (auto simp: b)
  next
    case (Inr resp)
    show ?thesis
      using d Inr le a s
        IH [of "Some YFRateLimitError" "time_Sleep (backoff E attempt) (switchCookieStrategy w1)"]
        IH [of lastErr "w1\<lparr>crumb := [], cookie := [], cookieStrategy := ''csrf''\<rparr>"]
        IH [of lastErr "ResetCrumb w1"]
      by (subst attempt_loop.simps) (auto simp: b Let_def acceptConsent_def)
  qed
qed

lemma makeRequest_tries:
  "Retries GlobalConfig = 0 \<Longrightarrow>
   api_calls (snd (makeRequest E GlobalConfig method endpoint params body w)) \<le> api_calls w + 4"
  using attempt_budget [of E 3 "method" "endpoint" "params" "body" 0 None w]
  by (simp add: makeRequest_def)

text \<open>
  Claim C5 fails on the code at attempt 34.  With 35 retries configured and
  every request answered with 429, the wait after attempt 34 is the argument
  \<open>backoff 34\<close> of \<open>time.Sleep\<close>: the product \<open>2 ^ 34 * 1000000000\<close> wraps in
  \<open>int64\<close> to a negative duration, the comparison with 30 seconds fails, and
  \<open>time.Sleep\<close> returns at once, where the claim has 30 seconds.  One attempt
  earlier the wait is still 30 seconds.
\<close>

theorem backoff_overflow:
  "sleeps (trace (snd (makeRequest env_limited many_retries ''GET'' chart_url [] None init_world))) ! 34
     = backoff env_limited 34
   \<and> sint (backoff env_limited 34) = - 1266874889709551616
   \<and> waited (backoff env_limited 34) = 0
   \<and> sint (backoff env_limited 33) = 30 * 1000000000"
proof -
  have l: "\<forall>k. \<exists>r. api_script env_limited k = Inr r \<and> StatusCode r = 429"
    by (simp add: env_limited_def response_def)
  have b: "\<forall>u. NewRequest_error env_limited ''GET'' u = None"
    "\<forall>err. (None :: (error + string) option) \<noteq> Some (Inl err)"
    by (simp_all add: env_limited_def base_env_def)
  have "sleeps (trace (snd (makeRequest env_limited many_retries ''GET'' chart_url [] None init_world)))
          = map (\<lambda>k. backoff env_limited (int k)) [0 ..< 35]"
    using rate_limited_sleeps [OF l b, of 0 35 chart_url "[]" None init_world]
    by (simp add: makeRequest_def many_retries_def init_world_def)
  then have "sleeps (trace (snd (makeRequest env_limited many_retries ''GET'' chart_url [] None init_world))) ! 34
          = backoff env_limited 34"
    by (simp del: upt_Suc)
  moreover have v: "sint (backoff env_limited 34) = - 1266874889709551616"
    by (simp add: backoff_def pow2_Duration_def Second_def word_sless_alt Let_def)
  moreover have "waited (backoff env_limited 34) = 0" by (simp add: waited_def v)
  moreover have "sint (backoff env_limited 33) = 30 * 1000000000"
    by (simp add: backoff_def pow2_Duration_def Second_def word_sless_alt Let_def)
  ultimately show ?thesis by simp
qed

end
